theory Spec2Isabelle
  imports Main "HOL-Library.AList"
begin

section \<open>Python control flow: exceptions, exit status\<close>

text \<open>
  The program \<^verbatim>\<open>main2.py\<close> is a sequence of effects on the working directory and on
  external collaborators. Every function of the source becomes a function from a world
  to a result and the world it leaves behind. The result is \<open>Inr v\<close> when the function
  returns \<open>v\<close>, and \<open>Inl e\<close> when an exception \<open>e\<close> leaves it: \<open>PyException\<close> is an
  instance of Python's \<^verbatim>\<open>Exception\<close> class, \<open>SystemExit n\<close> is what \<^verbatim>\<open>sys.exit(n)\<close>
  raises. \<^verbatim>\<open>SystemExit\<close> derives from \<^verbatim>\<open>BaseException\<close> only, so a handler
  \<^verbatim>\<open>except Exception\<close> does not catch it.
\<close>

datatype pyexn = PyException | SystemExit nat

definition ret :: "'a \<Rightarrow> 's \<Rightarrow> (pyexn + 'a) \<times> 's" where
  "ret v w = (Inr v, w)"

definition raise :: "pyexn \<Rightarrow> 's \<Rightarrow> (pyexn + 'a) \<times> 's" where
  "raise e w = (Inl e, w)"

definition sys_exit :: "nat \<Rightarrow> 's \<Rightarrow> (pyexn + 'a) \<times> 's" where
  "sys_exit n = raise (SystemExit n)"

text \<open>Sequencing: the second statement runs only if the first one returns.\<close>

definition bind :: "('s \<Rightarrow> (pyexn + 'a) \<times> 's) \<Rightarrow> ('a \<Rightarrow> 's \<Rightarrow> (pyexn + 'b) \<times> 's)
                    \<Rightarrow> 's \<Rightarrow> (pyexn + 'b) \<times> 's" where
  "bind m f w = (case m w of (Inl e, w') \<Rightarrow> (Inl e, w') | (Inr v, w') \<Rightarrow> f v w')"

text \<open>\<^verbatim>\<open>try: body  except Exception as e: handler\<close>\<close>

definition try_except :: "('s \<Rightarrow> (pyexn + 'a) \<times> 's) \<Rightarrow> ('s \<Rightarrow> (pyexn + 'a) \<times> 's)
                          \<Rightarrow> 's \<Rightarrow> (pyexn + 'a) \<times> 's" where
  "try_except body handler w =
     (case body w of
        (Inl PyException, w') \<Rightarrow> handler w'
      | (Inl (SystemExit n), w') \<Rightarrow> (Inl (SystemExit n), w')
      | (Inr v, w') \<Rightarrow> (Inr v, w'))"

text \<open>
  The status the process exits with: 0 when \<^verbatim>\<open>main\<close> returns, the argument of
  \<^verbatim>\<open>sys.exit\<close>, and 1 when an exception reaches the top level (the interpreter prints
  the traceback and exits with 1).
\<close>

definition exit_status :: "pyexn + 'a \<Rightarrow> nat" where
  "exit_status r = (case r of Inr _ \<Rightarrow> 0 | Inl (SystemExit n) \<Rightarrow> n | Inl PyException \<Rightarrow> 1)"

section \<open>The roster file: \<^verbatim>\<open>read_location_ids\<close>\<close>

text \<open>
  Text is a list of characters, each a code point below 256. \<open>is_space\<close> lists the code
  points below 256 that \<^verbatim>\<open>str.strip()\<close> removes (those for which \<^verbatim>\<open>str.isspace\<close>
  holds): TAB, LF, VT, FF, CR, the separators 0x1C to 0x1F, the space, NEL and the
  no-break space.
\<close>

definition is_space :: "char \<Rightarrow> bool" where
  "is_space c = (c \<in> set [CHR 0x09, CHR 0x0A, CHR 0x0B, CHR 0x0C, CHR 0x0D,
                           CHR 0x1C, CHR 0x1D, CHR 0x1E, CHR 0x1F, CHR 0x20,
                           CHR 0x85, CHR 0xA0])"

text \<open>
  \<^verbatim>\<open>str.strip()\<close> as CPython computes it: \<open>i\<close> is the index of the first character that
  is not whitespace, \<open>j\<close> the index after the last one, and the result is \<^verbatim>\<open>s[i:j]\<close>.
\<close>

definition strip :: "string \<Rightarrow> string" where
  "strip s =
     (let i = length (takeWhile is_space s);
          j = length s - length (takeWhile is_space (rev s))
      in if j \<le> i then [] else take (j - i) (drop i s))"

text \<open>
  A file opened in text mode translates \<^verbatim>\<open>\r\n\<close> and a lone \<^verbatim>\<open>\r\<close> to \<^verbatim>\<open>\n\<close>
  (universal newlines); iterating over it yields the lines, each with its terminating
  \<^verbatim>\<open>\n\<close> (the last line may have none).
\<close>

fun universal_newlines :: "string \<Rightarrow> string" where
  "universal_newlines [] = []"
| "universal_newlines [c] = (if c = CHR 0x0D then [CHR 0x0A] else [c])"
| "universal_newlines (c # d # cs) =
     (if c = CHR 0x0D \<and> d = CHR 0x0A then CHR 0x0A # universal_newlines cs
      else if c = CHR 0x0D then CHR 0x0A # universal_newlines (d # cs)
      else c # universal_newlines (d # cs))"

fun split_lines :: "string \<Rightarrow> string list" where
  "split_lines [] = []"
| "split_lines (c # cs) =
     (if c = CHR 0x0A then [c] # split_lines cs
      else (case split_lines cs of [] \<Rightarrow> [[c]] | l # ls \<Rightarrow> (c # l) # ls))"

definition file_lines :: "string \<Rightarrow> string list" where
  "file_lines txt = split_lines (universal_newlines txt)"

text \<open>
  The files of the working directory. The program reads \<^verbatim>\<open>locations.txt\<close> as text and
  reads and writes its other files through the \<^verbatim>\<open>json\<close> module only, so the model
  keeps the two kinds apart: a text file is its characters; a JSON file is either the
  object that \<^verbatim>\<open>json.dump\<close> wrote there (its members in the order written) or content
  that \<^verbatim>\<open>json.load\<close> rejects, such as the empty file that \<^verbatim>\<open>open(path, 'w').close()\<close>
  leaves. Both documents of the program are objects from identifiers to lists of
  identifiers, and all identifiers are strings.
\<close>

type_synonym pydict = "(string \<times> string list) list"

datatype json_file = NotJson | JsonObject pydict

text \<open>
  An entry of the staging directory \<^verbatim>\<open>patients_to_sync\<close>: a regular file (with whether
  \<^verbatim>\<open>os.unlink\<close> raises on it, for instance for lack of permission), a subdirectory with
  its own entries, or anything else (a socket, a dangling link).
\<close>

datatype node = File bool | Dir "(string \<times> node) list" | Other

type_synonym directory = "(string \<times> node) list"

text \<open>
  The collaborators live in \<^verbatim>\<open>services/\<close> and are not part of the orchestrator. A call
  either returns a value or raises an instance of \<^verbatim>\<open>Exception\<close>. They act on the
  staging directory and on a state of their own (the databases, the network), of an
  arbitrary type \<open>'x\<close>; they do not touch the orchestrator's files.
\<close>

datatype 'a outcome = Returns 'a | Raises

type_synonym 'x outside = "directory option \<times> 'x"

record 'x SyncService =
  openmrs_connector_connect :: "'x outside \<Rightarrow> unit outcome \<times> 'x outside"
  fetch_patient_encounters_by_location ::
    "string \<Rightarrow> string list \<Rightarrow> 'x outside \<Rightarrow> pydict option outcome \<times> 'x outside"
  process_patient_and_encounters ::
    "string \<Rightarrow> string list \<Rightarrow> string \<Rightarrow> 'x outside \<Rightarrow> unit outcome \<times> 'x outside"
  dhis2_connector_process_patient_files :: "'x outside \<Rightarrow> unit outcome \<times> 'x outside"

text \<open>
  The calls the program makes are recorded, in order and with their results, in a log
  that the program itself never reads.
\<close>

datatype event =
    EvBegin string
  | EvClear
  | EvUnlink string bool
  | EvNewTracker string
  | EvGetProgress string "string list option"
  | EvResetProgress string
  | EvUpdateProgress string string
  | EvUpdateFailed string string
  | EvConnect bool
  | EvFetch string "string list" "pydict option outcome"
  | EvTruncate string
  | EvJsonDump string pydict
  | EvJsonLoad string "pydict option"
  | EvProcess string "string list" string bool
  | EvUpload bool

text \<open>
  The world: the files, the staging directory, the collaborators' own state, the log,
  and the documents that the storage refuses when the progress store persists them (the
  disk is full, the permission is missing).
\<close>

record 'x world =
  text_files :: "string \<Rightarrow> string option"
  json_files :: "string \<Rightarrow> json_file option"
  patients_to_sync :: "directory option"
  ext :: 'x
  trace :: "event list"
  record_fails :: "pydict \<Rightarrow> bool"

definition log :: "event \<Rightarrow> 'x world \<Rightarrow> 'x world" where
  "log e w = w\<lparr>trace := trace w @ [e]\<rparr>"

text \<open>
  \<^verbatim>\<open>read_location_ids(file_path)\<close>, lines 14 to 27. \<^verbatim>\<open>os.path.isfile\<close> fails for a
  missing file; an empty string and an empty list are false.
\<close>

definition read_location_ids :: "string \<Rightarrow> 'x world \<Rightarrow> (pyexn + string list) \<times> 'x world" where
  "read_location_ids file_path w =
     (case text_files w file_path of
        None \<Rightarrow> sys_exit 1 w
      | Some txt \<Rightarrow>
          (let location_ids = map strip (filter (\<lambda>line. strip line \<noteq> []) (file_lines txt))
           in if location_ids = [] then sys_exit 1 w else ret location_ids w))"

section \<open>The staging directory: \<^verbatim>\<open>clear_patients_to_sync_folder\<close>\<close>

text \<open>
  \<^verbatim>\<open>os.listdir\<close> raises when the directory does not exist, and returns the names of its
  entries otherwise. \<^verbatim>\<open>os.path.isfile\<close> holds for a regular file only and never raises.
  \<^verbatim>\<open>os.unlink\<close> removes the entry of that name, or raises.
\<close>

definition os_listdir :: "'x world \<Rightarrow> (pyexn + string list) \<times> 'x world" where
  "os_listdir w =
     (case patients_to_sync w of None \<Rightarrow> raise PyException w | Some d \<Rightarrow> ret (map fst d) w)"

definition os_path_isfile :: "string \<Rightarrow> 'x world \<Rightarrow> bool" where
  "os_path_isfile filename w =
     (case patients_to_sync w of
        None \<Rightarrow> False
      | Some d \<Rightarrow> (case map_of d filename of Some (File _) \<Rightarrow> True | _ \<Rightarrow> False))"

definition os_unlink :: "string \<Rightarrow> 'x world \<Rightarrow> (pyexn + unit) \<times> 'x world" where
  "os_unlink filename w =
     (case patients_to_sync w of
        None \<Rightarrow> raise PyException (log (EvUnlink filename False) w)
      | Some d \<Rightarrow>
          (case map_of d filename of
             Some (File False) \<Rightarrow>
               ret () (log (EvUnlink filename True)
                         (w\<lparr>patients_to_sync := Some (filter (\<lambda>e. fst e \<noteq> filename) d)\<rparr>))
           | _ \<Rightarrow> raise PyException (log (EvUnlink filename False) w)))"

text \<open>The loop of lines 32 to 39, over the names that \<^verbatim>\<open>os.listdir\<close> returned.\<close>

fun clear_loop :: "string list \<Rightarrow> 'x world \<Rightarrow> (pyexn + unit) \<times> 'x world" where
  "clear_loop [] = ret ()"
| "clear_loop (filename # rest) =
     bind (try_except
             (\<lambda>w. if os_path_isfile filename w then os_unlink filename w else ret () w)
             (sys_exit 1))
          (\<lambda>_. clear_loop rest)"

definition clear_patients_to_sync_folder :: "'x world \<Rightarrow> (pyexn + unit) \<times> 'x world" where
  "clear_patients_to_sync_folder =
     bind (\<lambda>w. os_listdir (log EvClear w)) clear_loop"

section \<open>The progress store\<close>

text \<open>
  \<^verbatim>\<open>json.load\<close> builds a dictionary from the members of the object in the file, in their
  order; a key that occurs again keeps its place and takes the later value.
\<close>

definition dict_of :: "pydict \<Rightarrow> pydict" where
  "dict_of members = foldl (\<lambda>d (k, v). AList.update k v d) [] members"

text \<open>
  Modelled from the spec: \<^verbatim>\<open>utils/progress_tracker.py\<close> is not among the sources. The
  progress store is the durable document, from a location to the list of the patients
  completed for it, in the file the tracker was made for. \<open>get_progress\<close> returns \<open>None\<close>
  for a location that was never initialised, and its list otherwise; \<open>reset_progress\<close>
  sets the location's entry to the empty list; \<open>update_progress\<close> appends the patient to
  the location's list and persists the whole document before it returns; when the
  document cannot be persisted it raises, and the file is as it was. A file that is
  missing or is not a JSON object counts as the empty document.
\<close>

record ProgressTracker =
  progress_file :: string

definition load_document :: "string \<Rightarrow> 'x world \<Rightarrow> pydict" where
  "load_document path w =
     (case json_files w path of Some (JsonObject members) \<Rightarrow> dict_of members | _ \<Rightarrow> [])"

definition store_document :: "string \<Rightarrow> pydict \<Rightarrow> 'x world \<Rightarrow> 'x world" where
  "store_document path doc w = w\<lparr>json_files := (json_files w)(path \<mapsto> JsonObject doc)\<rparr>"

definition new_ProgressTracker :: "string \<Rightarrow> 'x world \<Rightarrow> (pyexn + ProgressTracker) \<times> 'x world" where
  "new_ProgressTracker path w = ret \<lparr>progress_file = path\<rparr> (log (EvNewTracker path) w)"

definition get_progress ::
  "ProgressTracker \<Rightarrow> string \<Rightarrow> 'x world \<Rightarrow> (pyexn + string list option) \<times> 'x world" where
  "get_progress t location w =
     (let r = map_of (load_document (progress_file t) w) location
      in ret r (log (EvGetProgress location r) w))"

definition reset_progress ::
  "ProgressTracker \<Rightarrow> string \<Rightarrow> 'x world \<Rightarrow> (pyexn + unit) \<times> 'x world" where
  "reset_progress t location w =
     ret () (log (EvResetProgress location)
               (store_document (progress_file t)
                  (AList.update location [] (load_document (progress_file t) w)) w))"

definition update_progress ::
  "ProgressTracker \<Rightarrow> string \<Rightarrow> string \<Rightarrow> 'x world \<Rightarrow> (pyexn + unit) \<times> 'x world" where
  "update_progress t location patient_id w =
     (let doc = load_document (progress_file t) w;
          done = (case map_of doc location of None \<Rightarrow> [] | Some ps \<Rightarrow> ps);
          doc' = AList.update location (done @ [patient_id]) doc
      in if record_fails w doc'
         then raise PyException (log (EvUpdateFailed location patient_id) w)
         else ret () (log (EvUpdateProgress location patient_id)
                        (store_document (progress_file t) doc' w)))"

section \<open>The collaborators' calls\<close>

definition call :: "('x outside \<Rightarrow> 'a outcome \<times> 'x outside) \<Rightarrow> 'x world \<Rightarrow> 'a outcome \<times> 'x world" where
  "call f w =
     (case f (patients_to_sync w, ext w) of
        (r, (d, x)) \<Rightarrow> (r, w\<lparr>patients_to_sync := d, ext := x\<rparr>))"

definition connect :: "'x SyncService \<Rightarrow> 'x world \<Rightarrow> (pyexn + unit) \<times> 'x world" where
  "connect sync_service w =
     (case call (openmrs_connector_connect sync_service) w of
        (Returns _, w') \<Rightarrow> ret () (log (EvConnect True) w')
      | (Raises, w') \<Rightarrow> raise PyException (log (EvConnect False) w'))"

definition fetch ::
  "'x SyncService \<Rightarrow> string \<Rightarrow> string list \<Rightarrow> 'x world \<Rightarrow> (pyexn + pydict option) \<times> 'x world" where
  "fetch sync_service location_id encounter_type_ids w =
     (case call (fetch_patient_encounters_by_location sync_service location_id encounter_type_ids) w of
        (Returns r, w') \<Rightarrow> ret r (log (EvFetch location_id encounter_type_ids (Returns r)) w')
      | (Raises, w') \<Rightarrow> raise PyException (log (EvFetch location_id encounter_type_ids Raises) w'))"

definition process_patient ::
  "'x SyncService \<Rightarrow> string \<Rightarrow> string list \<Rightarrow> string \<Rightarrow> 'x world \<Rightarrow> (pyexn + unit) \<times> 'x world" where
  "process_patient sync_service patient_id encounter_ids location_id w =
     (case call (process_patient_and_encounters sync_service patient_id encounter_ids location_id) w of
        (Returns _, w') \<Rightarrow> ret () (log (EvProcess patient_id encounter_ids location_id True) w')
      | (Raises, w') \<Rightarrow>
          raise PyException (log (EvProcess patient_id encounter_ids location_id False) w'))"

definition process_patient_files :: "'x SyncService \<Rightarrow> 'x world \<Rightarrow> (pyexn + unit) \<times> 'x world" where
  "process_patient_files sync_service w =
     (case call (dhis2_connector_process_patient_files sync_service) w of
        (Returns _, w') \<Rightarrow> ret () (log (EvUpload True) w')
      | (Raises, w') \<Rightarrow> raise PyException (log (EvUpload False) w'))"

section \<open>The orchestrator: \<^verbatim>\<open>process_location\<close>\<close>

text \<open>\<^verbatim>\<open>open(path, 'w').close()\<close>, \<^verbatim>\<open>json.dump\<close> and \<^verbatim>\<open>json.load\<close> on a path.\<close>

definition truncate_file :: "string \<Rightarrow> 'x world \<Rightarrow> (pyexn + unit) \<times> 'x world" where
  "truncate_file path w =
     ret () (log (EvTruncate path) (w\<lparr>json_files := (json_files w)(path \<mapsto> NotJson)\<rparr>))"

definition json_dump :: "pydict \<Rightarrow> string \<Rightarrow> 'x world \<Rightarrow> (pyexn + unit) \<times> 'x world" where
  "json_dump d path w =
     ret () (log (EvJsonDump path d) (w\<lparr>json_files := (json_files w)(path \<mapsto> JsonObject d)\<rparr>))"

definition json_load :: "string \<Rightarrow> 'x world \<Rightarrow> (pyexn + pydict) \<times> 'x world" where
  "json_load path w =
     (case json_files w path of
        Some (JsonObject members) \<Rightarrow>
          ret (dict_of members) (log (EvJsonLoad path (Some (dict_of members))) w)
      | _ \<Rightarrow> raise PyException (log (EvJsonLoad path None) w))"

text \<open>The loop of lines 88 to 93, over the items of the dictionary read back.\<close>

fun process_units ::
  "'x SyncService \<Rightarrow> ProgressTracker \<Rightarrow> string \<Rightarrow> pydict \<Rightarrow> 'x world \<Rightarrow> (pyexn + unit) \<times> 'x world" where
  "process_units sync_service progress_tracker location_id [] = ret ()"
| "process_units sync_service progress_tracker location_id ((patient_id, encounter_ids) # rest) =
     bind (process_patient sync_service patient_id encounter_ids location_id) (\<lambda>_.
     bind (update_progress progress_tracker location_id patient_id) (\<lambda>_.
     process_units sync_service progress_tracker location_id rest))"

text \<open>The body of the \<^verbatim>\<open>try\<close> statement, lines 68 to 93.\<close>

definition fetch_and_process ::
  "'x SyncService \<Rightarrow> ProgressTracker \<Rightarrow> string \<Rightarrow> string list \<Rightarrow> 'x world \<Rightarrow> (pyexn + unit) \<times> 'x world" where
  "fetch_and_process sync_service progress_tracker location_id encounter_type_ids =
     bind (fetch sync_service location_id encounter_type_ids) (\<lambda>patient_encounters.
       case patient_encounters of
         None \<Rightarrow> sys_exit 1
       | Some fetched \<Rightarrow>
           bind (truncate_file ''patients_to_sync.json'') (\<lambda>_.
           bind (truncate_file ''encounters_to_process.json'') (\<lambda>_.
           bind (json_dump fetched ''encounters_to_process.json'') (\<lambda>_.
           bind (json_load ''encounters_to_process.json'') (\<lambda>encounters_to_process.
           process_units sync_service progress_tracker location_id encounters_to_process)))))"

text \<open>
  \<^verbatim>\<open>process_location(location_id, sync_service, progress_tracker)\<close>, lines 41 to 100.
  Line 49 binds the name of the third parameter to a new tracker.
\<close>

definition process_location ::
  "string \<Rightarrow> 'x SyncService \<Rightarrow> ProgressTracker \<Rightarrow> 'x world \<Rightarrow> (pyexn + unit) \<times> 'x world" where
  "process_location location_id sync_service progress_tracker =
     bind (\<lambda>w. clear_patients_to_sync_folder (log (EvBegin location_id) w)) (\<lambda>_.
     bind (new_ProgressTracker ''logs/progress.json'') (\<lambda>progress_tracker.
     bind (get_progress progress_tracker location_id) (\<lambda>handled_encounters.
     bind (if handled_encounters \<noteq> None then ret ()
           else reset_progress progress_tracker location_id) (\<lambda>_.
     bind (connect sync_service) (\<lambda>_.
     bind (try_except (fetch_and_process sync_service progress_tracker location_id [])
                      (sys_exit 1)) (\<lambda>_.
     process_patient_files sync_service))))))"

section \<open>The batch driver: \<^verbatim>\<open>main\<close>\<close>

text \<open>The loop of lines 128 and 129.\<close>

fun process_locations :: "string list \<Rightarrow> 'x SyncService \<Rightarrow> 'x world \<Rightarrow> (pyexn + unit) \<times> 'x world" where
  "process_locations [] sync_service = ret ()"
| "process_locations (location_id # rest) sync_service =
     bind (new_ProgressTracker ''logs/progress.json'') (\<lambda>progress_tracker.
     bind (process_location location_id sync_service progress_tracker) (\<lambda>_.
     process_locations rest sync_service))"

text \<open>
  \<^verbatim>\<open>main()\<close>, lines 102 to 129; \<open>sync_service\<close> is the object that line 125 constructs.
  Logging and printing are left out.
\<close>

definition main :: "'x SyncService \<Rightarrow> 'x world \<Rightarrow> (pyexn + unit) \<times> 'x world" where
  "main sync_service =
     bind (read_location_ids ''locations.txt'') (\<lambda>location_ids.
     process_locations location_ids sync_service)"

section \<open>Notions used to state the properties\<close>

text \<open>
  The roster as the specification words it: the lines of the file, blank lines (all
  whitespace) removed, the others with the whitespace around them trimmed.
\<close>

definition blank :: "string \<Rightarrow> bool" where
  "blank line = list_all is_space line"

definition trim :: "string \<Rightarrow> string" where
  "trim s = rev (dropWhile is_space (rev (dropWhile is_space s)))"

definition roster_of_text :: "string \<Rightarrow> string list" where
  "roster_of_text txt = map trim (filter (\<lambda>line. \<not> blank line) (file_lines txt))"

text \<open>The events that a run appends to the log.\<close>

definition new_events :: "'x world \<Rightarrow> 'x world \<Rightarrow> event list" where
  "new_events w w' = drop (length (trace w)) (trace w')"

fun is_regular :: "node \<Rightarrow> bool" where
  "is_regular (File _) = True"
| "is_regular _ = False"

fun is_unlink :: "event \<Rightarrow> bool" where
  "is_unlink (EvUnlink _ _) = True"
| "is_unlink _ = False"

fun is_unlink_ok :: "event \<Rightarrow> bool" where
  "is_unlink_ok (EvUnlink _ ok) = ok"
| "is_unlink_ok _ = False"

fun is_new_tracker :: "event \<Rightarrow> bool" where
  "is_new_tracker (EvNewTracker _) = True"
| "is_new_tracker _ = False"

fun is_process :: "event \<Rightarrow> bool" where
  "is_process (EvProcess _ _ _ _) = True"
| "is_process _ = False"

fun is_upload :: "event \<Rightarrow> bool" where
  "is_upload (EvUpload _) = True"
| "is_upload _ = False"

fun is_begin :: "event \<Rightarrow> bool" where
  "is_begin (EvBegin _) = True"
| "is_begin _ = False"

fun is_unit_event :: "event \<Rightarrow> bool" where
  "is_unit_event (EvProcess _ _ _ _) = True"
| "is_unit_event (EvUpdateProgress _ _) = True"
| "is_unit_event (EvUpdateFailed _ _) = True"
| "is_unit_event _ = False"

fun is_begin_or_upload :: "event \<Rightarrow> bool" where
  "is_begin_or_upload (EvBegin _) = True"
| "is_begin_or_upload (EvUpload _) = True"
| "is_begin_or_upload _ = False"

fun is_collaborator_call :: "event \<Rightarrow> bool" where
  "is_collaborator_call (EvConnect _) = True"
| "is_collaborator_call (EvFetch _ _ _) = True"
| "is_collaborator_call (EvProcess _ _ _ _) = True"
| "is_collaborator_call (EvUpload _) = True"
| "is_collaborator_call _ = False"

fun is_snapshot_write :: "event \<Rightarrow> bool" where
  "is_snapshot_write (EvTruncate _) = True"
| "is_snapshot_write (EvJsonDump _ _) = True"
| "is_snapshot_write _ = False"

text \<open>
  A batch shares one tracker among its locations when it constructs at most one; the
  events of the batch show every construction.
\<close>

definition shares_one_tracker :: "event list \<Rightarrow> bool" where
  "shares_one_tracker evs = (length (filter is_new_tracker evs) \<le> 1)"

text \<open>
  The events of the loop over units that all return: for each unit, the call of the
  collaborator and then the record in the progress store.
\<close>

definition unit_events :: "string \<Rightarrow> pydict \<Rightarrow> event list" where
  "unit_events location_id units =
     concat (map (\<lambda>(p, es). [EvProcess p es location_id True, EvUpdateProgress location_id p])
                 units)"

text \<open>The events between the fetch and the loop: the snapshot written and read back.\<close>

definition snapshot_events :: "pydict \<Rightarrow> event list" where
  "snapshot_events fetched =
     [EvTruncate ''patients_to_sync.json'', EvTruncate ''encounters_to_process.json'',
      EvJsonDump ''encounters_to_process.json'' fetched,
      EvJsonLoad ''encounters_to_process.json'' (Some (dict_of fetched))]"

text \<open>The events of lines 49 to 58, where \<open>g\<close> is what \<open>get_progress\<close> returned.\<close>

definition tracker_events :: "string \<Rightarrow> string list option \<Rightarrow> event list" where
  "tracker_events location_id g =
     [EvNewTracker ''logs/progress.json'', EvGetProgress location_id g] @
     (if g = None then [EvResetProgress location_id] else [])"

text \<open>
  What the collaborators act on: the staging directory and their own state. The
  collaborators applied to the units in order, each to the state the one before left:
  the state after all of them, and whether each of them returns.
\<close>

definition outside :: "'x world \<Rightarrow> 'x outside" where
  "outside w = (patients_to_sync w, ext w)"

fun units_effect :: "'x SyncService \<Rightarrow> string \<Rightarrow> pydict \<Rightarrow> 'x outside \<Rightarrow> 'x outside" where
  "units_effect svc location_id [] s = s"
| "units_effect svc location_id ((p, es) # units) s =
     units_effect svc location_id units
       (snd (process_patient_and_encounters svc p es location_id s))"

fun units_return :: "'x SyncService \<Rightarrow> string \<Rightarrow> pydict \<Rightarrow> 'x outside \<Rightarrow> bool" where
  "units_return svc location_id [] s = True"
| "units_return svc location_id ((p, es) # units) s =
     (fst (process_patient_and_encounters svc p es location_id s) = Returns () \<and>
      units_return svc location_id units
        (snd (process_patient_and_encounters svc p es location_id s)))"

text \<open>
  The events of a unit at which the loop stops, the collaborators being in state \<open>s\<close>:
  its call raises, or its call returns and the record fails.
\<close>

definition failed_unit_events ::
  "'x SyncService \<Rightarrow> string \<Rightarrow> string \<Rightarrow> string list \<Rightarrow> 'x outside \<Rightarrow> event list" where
  "failed_unit_events svc location_id p es s =
     (if fst (process_patient_and_encounters svc p es location_id s) = Raises
      then [EvProcess p es location_id False]
      else [EvProcess p es location_id True, EvUpdateFailed location_id p])"

text \<open>
  The state the collaborators are in when a run of a location connects (the staging
  directory cleared), when it fetches, and when its loop starts.
\<close>

definition at_connect :: "string \<Rightarrow> 'x world \<Rightarrow> 'x outside" where
  "at_connect location_id w =
     outside (snd (clear_patients_to_sync_folder (log (EvBegin location_id) w)))"

definition at_fetch :: "'x SyncService \<Rightarrow> string \<Rightarrow> 'x world \<Rightarrow> 'x outside" where
  "at_fetch svc location_id w = snd (openmrs_connector_connect svc (at_connect location_id w))"

definition at_loop :: "'x SyncService \<Rightarrow> string \<Rightarrow> 'x world \<Rightarrow> 'x outside" where
  "at_loop svc location_id w =
     snd (fetch_patient_encounters_by_location svc location_id [] (at_fetch svc location_id w))"

text \<open>The patients that the progress document records for a location.\<close>

definition completed :: "'x world \<Rightarrow> string \<Rightarrow> string list" where
  "completed w location =
     (case map_of (load_document ''logs/progress.json'' w) location of
        None \<Rightarrow> [] | Some ps \<Rightarrow> ps)"

definition recorded :: "'x world \<Rightarrow> string \<Rightarrow> string \<Rightarrow> bool" where
  "recorded w location patient_id = (patient_id \<in> set (completed w location))"

section \<open>A concrete service and working directory\<close>

text \<open>
  The fetch returns two patients for every location; processing a patient stages a
  file named after the patient and adds the number of its encounters to the
  collaborators' own state, and raises for patient \<open>P2\<close> at location \<open>L2\<close> and for every
  patient at location \<open>L3\<close>; the upload adds 100 to that state; connecting raises when
  the state is 1, and the fetch for location \<open>L4\<close> returns \<open>None\<close> and that for \<open>L5\<close>
  raises.
\<close>

definition example_units :: pydict where
  "example_units = [(''P1'', [''E1'', ''E2'']), (''P2'', [''E3''])]"

definition example_service :: "nat SyncService" where
  "example_service =
     \<lparr> openmrs_connector_connect = (\<lambda>s. (if snd s = 1 then Raises else Returns (), s)),
       fetch_patient_encounters_by_location =
         (\<lambda>l tys s. (if l = ''L5'' then Raises
                      else if l = ''L4'' then Returns None
                      else Returns (Some example_units), s)),
       process_patient_and_encounters =
         (\<lambda>p es l s. (if (p = ''P2'' \<and> l = ''L2'') \<or> l = ''L3'' then Raises else Returns (),
                      (map_option (\<lambda>d. d @ [(p, File False)]) (fst s), snd s + length es))),
       dhis2_connector_process_patient_files = (\<lambda>s. (Returns (), (fst s, snd s + 100))) \<rparr>"

definition example_world :: "nat world" where
  "example_world =
     \<lparr> text_files = (\<lambda>_. None)(''locations.txt'' \<mapsto> '' L1 \<newline>\<newline>  L2''),
       json_files = (\<lambda>_. None)(''logs/progress.json'' \<mapsto> JsonObject [(''L1'', [''P1''])]),
       patients_to_sync =
         Some [(''a.json'', File False), (''sub'', Dir [(''x'', File False)]),
               (''b.json'', File False)],
       ext = 0, trace = [], record_fails = (\<lambda>doc. False) \<rparr>"


section \<open>The roster\<close>

lemma dropWhile_eq_Nil_all: "dropWhile P xs = [] \<longleftrightarrow> list_all P xs"
  by (induction xs) auto

lemma trim_eq_Nil: "trim s = [] \<longleftrightarrow> blank s"
proof (cases "dropWhile is_space s")
  case Nil
  then have "blank s" by (simp only: dropWhile_eq_Nil_all blank_def)
  with Nil show ?thesis by (simp only: trim_def) simp
next
  case (Cons c cs)
  then have c: "\<not> is_space c" using hd_dropWhile [of is_space s] by auto
  from Cons have "\<not> blank s"
    by (metis blank_def dropWhile_eq_Nil_all list.distinct(1))
  moreover from Cons c have "trim s \<noteq> []" by (auto simp: trim_def)
  ultimately show ?thesis by simp
qed

lemma strip_eq_trim: "strip s = trim s"
proof (cases "blank s")
  case True
  then have all: "\<forall>c\<in>set s. is_space c" by (simp add: blank_def list_all_iff)
  then have "takeWhile is_space s = s" and "takeWhile is_space (rev s) = rev s"
    by (simp_all add: takeWhile_eq_all_conv)
  then have "strip s = []" by (simp only: strip_def Let_def) simp
  with True show ?thesis by (simp add: trim_eq_Nil [symmetric])
next
  case False
  define a where "a = takeWhile is_space s"
  define b where "b = dropWhile is_space s"
  define c where "c = takeWhile is_space (rev b)"
  have s: "s = a @ b" by (simp add: a_def b_def)
  from False have bne: "b \<noteq> []"
    by (simp add: b_def blank_def list_all_iff)
  then have "\<not> is_space (hd b)" unfolding b_def using hd_dropWhile by metis
  with bne have ex: "\<exists>x\<in>set (rev b). \<not> is_space x" by (metis hd_in_set set_rev)
  then obtain x where "x \<in> set (rev b)" and "\<not> is_space x" by blast
  then have "takeWhile is_space (rev b @ rev a) = takeWhile is_space (rev b)"
    by (rule takeWhile_append1)
  moreover have "rev s = rev b @ rev a" by (simp only: s rev_append)
  ultimately have tw: "takeWhile is_space (rev s) = c" by (simp only: c_def)
  from ex have "dropWhile is_space (rev b) \<noteq> []" by (simp add: dropWhile_eq_Nil_conv)
  then have "0 < length (dropWhile is_space (rev b))" by simp
  moreover have "length (takeWhile is_space (rev b)) + length (dropWhile is_space (rev b)) = length b"
    by (simp only: length_append [symmetric] takeWhile_dropWhile_id length_rev)
  ultimately have lc: "length c < length b" unfolding c_def by linarith
  have "dropWhile is_space (rev b) = drop (length c) (rev b)"
    unfolding c_def by (rule dropWhile_eq_drop)
  then have "trim s = take (length b - length c) b"
    by (simp add: trim_def b_def [symmetric] rev_drop)
  moreover have "strip s = take (length b - length c) b"
  proof -
    have len: "length s = length a + length b" by (subst s) simp
    have dr: "drop (length a) s = b" by (subst s) simp
    have nle: "\<not> length a + length b - length c \<le> length a" using lc by linarith
    have df: "length a + length b - length c - length a = length b - length c" by linarith
    show ?thesis
      unfolding strip_def Let_def tw a_def [symmetric] len
      by (simp only: nle df dr if_False)
  qed
  ultimately show ?thesis by simp
qed

lemma trim_decomposition:
  "\<exists>a b. s = a @ trim s @ b \<and> list_all is_space a \<and> list_all is_space b"
proof -
  define a where "a = takeWhile is_space s"
  define m where "m = dropWhile is_space s"
  define b where "b = rev (takeWhile is_space (rev m))"
  have "rev m = rev b @ rev (trim s)"
    by (simp add: b_def trim_def m_def)
  then have "m = trim s @ b" by (metis rev_append rev_rev_ident)
  moreover have "s = a @ m" by (simp add: a_def m_def)
  moreover have "list_all is_space a"
    by (auto simp: a_def list_all_iff dest: set_takeWhileD)
  moreover have "list_all is_space b"
    by (auto simp: b_def list_all_iff dest: set_takeWhileD)
  ultimately show ?thesis by auto
qed

lemma trim_ends:
  assumes "trim s \<noteq> []"
  shows "\<not> is_space (hd (trim s))" and "\<not> is_space (last (trim s))"
proof -
  define m where "m = dropWhile is_space s"
  define n where "n = dropWhile is_space (rev m)"
  have t: "trim s = rev n" by (simp add: trim_def m_def n_def)
  with assms have nne: "n \<noteq> []" by simp
  then have hn: "\<not> is_space (hd n)" unfolding n_def using hd_dropWhile by metis
  with nne t show "\<not> is_space (last (trim s))" by (simp add: last_rev)
  from nne have "rev m \<noteq> []" by (auto simp: n_def)
  then have mne: "m \<noteq> []" by simp
  then have hm: "\<not> is_space (hd m)" unfolding m_def using hd_dropWhile by metis
  obtain k where k: "n = drop k (rev m)"
    unfolding n_def using dropWhile_eq_drop by blast
  then have "rev n = take (length m - k) m" by (simp add: rev_drop)
  moreover from nne k have "0 < length m - k" by auto
  ultimately have "hd (rev n) = hd m" by (cases m) (auto simp: take_Cons')
  with hm t show "\<not> is_space (hd (trim s))" by simp
qed

lemma roster_eq: 
  "map strip (filter (\<lambda>line. strip line \<noteq> []) (file_lines txt)) = roster_of_text txt"
  by (simp add: roster_of_text_def strip_eq_trim trim_eq_Nil cong: map_cong)

lemma read_location_ids_eq:
  "read_location_ids path w =
     (case text_files w path of
        None \<Rightarrow> (Inl (SystemExit 1), w)
      | Some txt \<Rightarrow>
          if roster_of_text txt = [] then (Inl (SystemExit 1), w)
          else (Inr (roster_of_text txt), w))"
  by (simp add: read_location_ids_def roster_eq sys_exit_def raise_def ret_def Let_def
           split: option.splits)

section \<open>The unused parameter\<close>

lemma process_location_ignores_tracker:
  "process_location location_id sync_service t1 = process_location location_id sync_service t2"
  by (simp add: process_location_def)


section \<open>Facts about the primitives\<close>

lemma log_simps [simp]:
  "trace (log e w) = trace w @ [e]"
  "json_files (log e w) = json_files w"
  "text_files (log e w) = text_files w"
  "patients_to_sync (log e w) = patients_to_sync w"
  "ext (log e w) = ext w"
  by (simp_all add: log_def)

section \<open>Clearing the staging directory\<close>

lemma map_of_filter_other:
  "m \<noteq> n \<Longrightarrow> map_of (filter (\<lambda>e. fst e \<noteq> n) d) m = map_of d m"
  by (induction d) auto

lemma clear_step_cases:
  assumes "patients_to_sync w = Some d"
  shows "try_except (\<lambda>w. if os_path_isfile n w then os_unlink n w else ret () w) (sys_exit 1) w =
           (case map_of d n of
              Some (File False) \<Rightarrow>
                (Inr (), log (EvUnlink n True)
                           (w\<lparr>patients_to_sync := Some (filter (\<lambda>e. fst e \<noteq> n) d)\<rparr>))
            | Some (File True) \<Rightarrow> (Inl (SystemExit 1), log (EvUnlink n False) w)
            | _ \<Rightarrow> (Inr (), w))"
  using assms
  by (simp add: try_except_def os_path_isfile_def os_unlink_def ret_def raise_def sys_exit_def
           split: option.splits node.splits bool.splits)

lemma clear_loop_frame:
  assumes "clear_loop names w = (r, w')"
  shows "json_files w' = json_files w \<and> text_files w' = text_files w \<and> ext w' = ext w \<and>
         (r = Inr () \<or> r = Inl (SystemExit 1)) \<and>
         (\<exists>us. trace w' = trace w @ us \<and> list_all is_unlink us \<and>
               (r = Inr () \<longrightarrow> list_all is_unlink_ok us) \<and>
               (r \<noteq> Inr () \<longrightarrow> (\<exists>n. us \<noteq> [] \<and> last us = EvUnlink n False)))"
  using assms
proof (induction names arbitrary: w)
  case Nil
  then show ?case by (auto simp: ret_def)
next
  case (Cons n rest)
  let ?step = "try_except (\<lambda>w. if os_path_isfile n w then os_unlink n w else ret () w) (sys_exit 1)"
  obtain r1 w1 where s: "?step w = (r1, w1)" by fastforce
  have f1: "json_files w1 = json_files w \<and> text_files w1 = text_files w \<and> ext w1 = ext w \<and>
            ((r1 = Inr () \<and> (trace w1 = trace w \<or> trace w1 = trace w @ [EvUnlink n True])) \<or>
             (r1 = Inl (SystemExit 1) \<and> trace w1 = trace w @ [EvUnlink n False]))"
    using s
    by (auto simp: try_except_def os_path_isfile_def os_unlink_def ret_def raise_def sys_exit_def
             split: option.splits node.splits bool.splits if_splits)
  show ?case
  proof (cases r1)
    case (Inl e)
    with s Cons.prems have "r = r1" "w' = w1" by (simp_all add: bind_def)
    with f1 Inl show ?thesis by auto
  next
    case (Inr u)
    with s Cons.prems have "clear_loop rest w1 = (r, w')" by (simp add: bind_def)
    from Cons.IH [OF this] obtain us where
      a: "json_files w' = json_files w1" "text_files w' = text_files w1" "ext w' = ext w1"
         "r = Inr () \<or> r = Inl (SystemExit 1)"
      and b: "trace w' = trace w1 @ us" "list_all is_unlink us"
         "r = Inr () \<longrightarrow> list_all is_unlink_ok us"
         "r \<noteq> Inr () \<longrightarrow> (\<exists>n. us \<noteq> [] \<and> last us = EvUnlink n False)"
      by blast
    from f1 Inr consider "trace w1 = trace w" | "trace w1 = trace w @ [EvUnlink n True]" by auto
    then show ?thesis
    proof cases
      case 1
      with a b f1 show ?thesis by auto
    next
      case 2
      with b have "trace w' = trace w @ (EvUnlink n True # us)" by simp
      moreover from b have "list_all is_unlink (EvUnlink n True # us)" by simp
      moreover from b have "r = Inr () \<longrightarrow> list_all is_unlink_ok (EvUnlink n True # us)"
        by simp
      moreover from b have "r \<noteq> Inr () \<longrightarrow> (\<exists>m. EvUnlink n True # us \<noteq> [] \<and> last (EvUnlink n True # us) = EvUnlink m False)"
        by auto
      ultimately show ?thesis using a f1 by (metis (no_types, lifting))
    qed
  qed
qed

lemma clear_loop_result:
  assumes "patients_to_sync w = Some d" and "distinct (map fst d)"
      and "distinct names" and "clear_loop names w = (r, w')"
  shows "(r = Inr () \<longrightarrow>
            patients_to_sync w' =
              Some (filter (\<lambda>e. \<not> (fst e \<in> set names \<and> is_regular (snd e))) d)) \<and>
         (r = Inr () \<longleftrightarrow> (\<forall>n\<in>set names. map_of d n \<noteq> Some (File True))) \<and>
         (\<exists>d'. patients_to_sync w' = Some d' \<and>
               filter (\<lambda>e. \<not> is_regular (snd e)) d' = filter (\<lambda>e. \<not> is_regular (snd e)) d)"
  using assms
proof (induction names arbitrary: w d)
  case Nil
  then show ?case by (auto simp: ret_def)
next
  case (Cons n rest)
  let ?step = "try_except (\<lambda>w. if os_path_isfile n w then os_unlink n w else ret () w) (sys_exit 1)"
  note step = clear_step_cases [OF Cons.prems(1), of n]
  from Cons.prems have nrest: "n \<notin> set rest" and drest: "distinct rest" by auto
  consider (ok) "map_of d n = Some (File False)" | (bad) "map_of d n = Some (File True)"
    | (skip) "\<forall>b. map_of d n \<noteq> Some (File b)"
    by (metis (full_types))
  then show ?case
  proof cases
    case ok
    let ?d1 = "filter (\<lambda>e. fst e \<noteq> n) d"
    let ?w1 = "log (EvUnlink n True) (w\<lparr>patients_to_sync := Some ?d1\<rparr>)"
    from ok step have "?step w = (Inr (), ?w1)" by simp
    with Cons.prems(4) have run: "clear_loop rest ?w1 = (r, w')" by (simp add: bind_def)
    have p1: "patients_to_sync ?w1 = Some ?d1" by simp
    have d1: "distinct (map fst ?d1)" using Cons.prems(2) by (simp add: distinct_map_filter)
    note ih = Cons.IH [OF p1 d1 drest run]
    have same: "\<And>m. m \<in> set rest \<Longrightarrow> map_of ?d1 m = map_of d m"
      using nrest by (metis map_of_filter_other)
    have entry: "\<And>e. e \<in> set d \<Longrightarrow> fst e = n \<Longrightarrow> is_regular (snd e)"
    proof -
      fix e assume "e \<in> set d" "fst e = n"
      then have "map_of d n = Some (snd e)"
        using Cons.prems(2) by (metis map_of_is_SomeI prod.collapse)
      with ok show "is_regular (snd e)" by simp
    qed
    have f1: "filter (\<lambda>e. \<not> (fst e \<in> set rest \<and> is_regular (snd e))) ?d1 =
              filter (\<lambda>e. \<not> (fst e \<in> set (n # rest) \<and> is_regular (snd e))) d"
      using entry by (auto intro!: filter_cong)
    have f2: "filter (\<lambda>e. \<not> is_regular (snd e)) ?d1 = filter (\<lambda>e. \<not> is_regular (snd e)) d"
      using entry by (auto intro!: filter_cong)
    from ih same ok f1 f2 show ?thesis by auto
  next
    case bad
    with step have "?step w = (Inl (SystemExit 1), log (EvUnlink n False) w)" by simp
    with Cons.prems(4) have "r = Inl (SystemExit 1)" "w' = log (EvUnlink n False) w"
      by (simp_all add: bind_def)
    with bad Cons.prems(1) show ?thesis by auto
  next
    case skip
    with step have "?step w = (Inr (), w)"
      by (auto split: option.splits node.splits bool.splits)
    with Cons.prems(4) have run: "clear_loop rest w = (r, w')" by (simp add: bind_def)
    note ih = Cons.IH [OF Cons.prems(1) Cons.prems(2) drest run]
    have entry: "\<And>e. e \<in> set d \<Longrightarrow> fst e = n \<Longrightarrow> \<not> is_regular (snd e)"
    proof -
      fix e assume "e \<in> set d" "fst e = n"
      then have "map_of d n = Some (snd e)"
        using Cons.prems(2) by (metis map_of_is_SomeI prod.collapse)
      with skip show "\<not> is_regular (snd e)" by (cases "snd e") auto
    qed
    have f1: "filter (\<lambda>e. \<not> (fst e \<in> set rest \<and> is_regular (snd e))) d =
              filter (\<lambda>e. \<not> (fst e \<in> set (n # rest) \<and> is_regular (snd e))) d"
      using entry by (auto intro!: filter_cong)
    from ih skip f1 show ?thesis by auto
  qed
qed


lemma clear_frame:
  assumes "clear_patients_to_sync_folder w = (r, w')"
  shows "json_files w' = json_files w \<and> text_files w' = text_files w \<and> ext w' = ext w \<and>
         (\<exists>us. trace w' = trace w @ EvClear # us \<and> list_all is_unlink us \<and>
               (r = Inr () \<and> list_all is_unlink_ok us \<or>
                r = Inl PyException \<and> us = [] \<and> patients_to_sync w = None \<or>
                r = Inl (SystemExit 1) \<and> (\<exists>n. us \<noteq> [] \<and> last us = EvUnlink n False)))"
proof (cases "patients_to_sync w")
  case None
  with assms show ?thesis
    by (auto simp: clear_patients_to_sync_folder_def bind_def os_listdir_def raise_def)
next
  case (Some d)
  with assms have "clear_loop (map fst d) (log EvClear w) = (r, w')"
    by (simp add: clear_patients_to_sync_folder_def bind_def os_listdir_def ret_def)
  from clear_loop_frame [OF this] show ?thesis by auto
qed

lemma clear_result:
  assumes "patients_to_sync w = Some d" and "distinct (map fst d)"
      and "clear_patients_to_sync_folder w = (r, w')"
  shows "(r = Inr () \<longrightarrow> patients_to_sync w' = Some (filter (\<lambda>e. \<not> is_regular (snd e)) d))"
    and "r = Inr () \<longleftrightarrow> (\<forall>e\<in>set d. snd e \<noteq> File True)"
    and "\<exists>d'. patients_to_sync w' = Some d' \<and>
               filter (\<lambda>e. \<not> is_regular (snd e)) d' = filter (\<lambda>e. \<not> is_regular (snd e)) d"
proof -
  from assms have run: "clear_loop (map fst d) (log EvClear w) = (r, w')"
    by (simp add: clear_patients_to_sync_folder_def bind_def os_listdir_def ret_def)
  have p: "patients_to_sync (log EvClear w) = Some d" using assms(1) by simp
  note res = clear_loop_result [OF p assms(2) assms(2) run]
  have "filter (\<lambda>e. \<not> (fst e \<in> set (map fst d) \<and> is_regular (snd e))) d =
        filter (\<lambda>e. \<not> is_regular (snd e)) d"
    by (auto intro!: filter_cong)
  with res show "r = Inr () \<longrightarrow> patients_to_sync w' = Some (filter (\<lambda>e. \<not> is_regular (snd e)) d)"
    by simp
  have "(\<forall>n\<in>set (map fst d). map_of d n \<noteq> Some (File True)) \<longleftrightarrow> (\<forall>e\<in>set d. snd e \<noteq> File True)"
  proof
    assume a: "\<forall>n\<in>set (map fst d). map_of d n \<noteq> Some (File True)"
    show "\<forall>e\<in>set d. snd e \<noteq> File True"
    proof
      fix e assume e: "e \<in> set d"
      then have "map_of d (fst e) = Some (snd e)"
        using assms(2) by (metis map_of_is_SomeI prod.collapse)
      with a e show "snd e \<noteq> File True" by auto
    qed
  next
    assume a: "\<forall>e\<in>set d. snd e \<noteq> File True"
    show "\<forall>n\<in>set (map fst d). map_of d n \<noteq> Some (File True)"
    proof
      fix n assume "n \<in> set (map fst d)"
      show "map_of d n \<noteq> Some (File True)"
      proof
        assume "map_of d n = Some (File True)"
        then have "(n, File True) \<in> set d" by (rule map_of_SomeD)
        with a show False by auto
      qed
    qed
  qed
  with res show "r = Inr () \<longleftrightarrow> (\<forall>e\<in>set d. snd e \<noteq> File True)" by simp
  from res show "\<exists>d'. patients_to_sync w' = Some d' \<and>
               filter (\<lambda>e. \<not> is_regular (snd e)) d' = filter (\<lambda>e. \<not> is_regular (snd e)) d"
    by simp
qed

section \<open>The progress document\<close>

lemma update_fresh: "k \<notin> fst ` set d \<Longrightarrow> AList.update k v d = d @ [(k, v)]"
  by (induction d) auto

lemma foldl_update_distinct:
  "distinct (map fst (acc @ ms)) \<Longrightarrow> foldl (\<lambda>d (k, v). AList.update k v d) acc ms = acc @ ms"
proof (induction ms arbitrary: acc)
  case Nil
  then show ?case by simp
next
  case (Cons m ms)
  obtain k v where m: "m = (k, v)" by (cases m)
  from Cons.prems m have fresh: "k \<notin> fst ` set acc" by auto
  from Cons.prems m have "distinct (map fst ((acc @ [(k, v)]) @ ms))" by simp
  from Cons.IH [OF this] fresh m show ?case by (simp add: update_fresh)
qed

lemma dict_of_distinct: "distinct (map fst d) \<Longrightarrow> dict_of d = d"
  using foldl_update_distinct [of "[]" d] by (simp add: dict_of_def)

lemma distinct_foldl_update:
  "distinct (map fst acc) \<Longrightarrow> distinct (map fst (foldl (\<lambda>d (k, v). AList.update k v d) acc ms))"
  by (induction ms arbitrary: acc) (auto simp: distinct_update split: prod.splits)

lemma distinct_dict_of: "distinct (map fst (dict_of ms))"
  by (simp add: dict_of_def distinct_foldl_update)

lemma distinct_load_document: "distinct (map fst (load_document path w))"
  by (simp add: load_document_def distinct_dict_of split: option.splits json_file.splits)

lemma load_document_log [simp]: "load_document path (log e w) = load_document path w"
  by (simp add: load_document_def)

lemma completed_log [simp]: "completed (log e w) l = completed w l"
  by (simp add: completed_def)

lemma load_document_store:
  "load_document path (store_document path (AList.update k v (load_document path w)) w) =
     AList.update k v (load_document path w)"
proof -
  have "distinct (map fst (AList.update k v (load_document path w)))"
    by (simp add: distinct_update distinct_load_document)
  then have "dict_of (AList.update k v (load_document path w)) = AList.update k v (load_document path w)"
    by (rule dict_of_distinct)
  moreover have "load_document path (store_document path doc w) = dict_of doc" for doc
    by (simp add: load_document_def store_document_def)
  ultimately show ?thesis by simp
qed

lemma outside_simps [simp]:
  "outside (log e w) = outside w"
  "outside (store_document path doc w) = outside w"
  "outside (w\<lparr>json_files := j\<rparr>) = outside w"
  by (simp_all add: outside_def log_def store_document_def)

lemma reset_progress_run:
  assumes "reset_progress \<lparr>progress_file = ''logs/progress.json''\<rparr> loc w = (r, w')"
      and "map_of (load_document ''logs/progress.json'' w) loc = None"
  shows "r = Inr ()" and "trace w' = trace w @ [EvResetProgress loc]"
    and "completed w' l = completed w l"
    and "q \<noteq> ''logs/progress.json'' \<Longrightarrow> json_files w' q = json_files w q"
    and "text_files w' = text_files w"
    and "outside w' = outside w"
proof -
  let ?P = "''logs/progress.json''"
  let ?doc = "AList.update loc [] (load_document ?P w)"
  from assms(1) have w': "w' = log (EvResetProgress loc) (store_document ?P ?doc w)" and "r = Inr ()"
    by (simp_all add: reset_progress_def ret_def)
  then show "r = Inr ()" by simp
  from w' show "trace w' = trace w @ [EvResetProgress loc]" by (simp add: store_document_def)
  from w' show "text_files w' = text_files w" by (simp add: store_document_def)
  from w' show "q \<noteq> ?P \<Longrightarrow> json_files w' q = json_files w q" by (simp add: store_document_def)
  from w' show "outside w' = outside w" by simp
  have "load_document ?P w' = ?doc"
    unfolding w' using load_document_store [of ?P loc "[]" w]
    by (simp add: load_document_def)
  then show "completed w' l = completed w l"
    using assms(2) by (simp add: completed_def update_conv')
qed

text \<open>A record either persists the document with the patient appended, or raises and leaves it.\<close>

lemma update_progress_run:
  assumes "update_progress \<lparr>progress_file = ''logs/progress.json''\<rparr> loc p w = (r, w')"
  shows "(r = Inr () \<and> trace w' = trace w @ [EvUpdateProgress loc p] \<and>
          (\<forall>l. completed w' l = completed w l @ (if l = loc then [p] else []))) \<or>
         (r = Inl PyException \<and> trace w' = trace w @ [EvUpdateFailed loc p] \<and>
          (\<forall>l. completed w' l = completed w l))"
    and "q \<noteq> ''logs/progress.json'' \<Longrightarrow> json_files w' q = json_files w q"
    and "text_files w' = text_files w"
    and "outside w' = outside w"
proof -
  let ?P = "''logs/progress.json''"
  let ?done = "case map_of (load_document ?P w) loc of None \<Rightarrow> [] | Some ps \<Rightarrow> ps"
  let ?doc = "AList.update loc (?done @ [p]) (load_document ?P w)"
  let ?ok = "log (EvUpdateProgress loc p) (store_document ?P ?doc w)"
  let ?ko = "log (EvUpdateFailed loc p) w"
  have "update_progress \<lparr>progress_file = ?P\<rparr> loc p w =
          (if record_fails w ?doc then (Inl PyException, ?ko) else (Inr (), ?ok))"
    by (simp add: update_progress_def ret_def raise_def Let_def)
  with assms have run: "(r, w') = (if record_fails w ?doc then (Inl PyException, ?ko) else (Inr (), ?ok))"
    by (simp only:)
  have ld: "load_document ?P ?ok = ?doc"
    using load_document_store [of ?P loc "?done @ [p]" w] by simp
  have ok: "\<forall>l. completed ?ok l = completed w l @ (if l = loc then [p] else [])"
    by (simp add: completed_def ld update_conv' del: load_document_log)
  show "(r = Inr () \<and> trace w' = trace w @ [EvUpdateProgress loc p] \<and>
          (\<forall>l. completed w' l = completed w l @ (if l = loc then [p] else []))) \<or>
         (r = Inl PyException \<and> trace w' = trace w @ [EvUpdateFailed loc p] \<and>
          (\<forall>l. completed w' l = completed w l))"
  proof (cases "record_fails w ?doc")
    case True
    with run have "r = Inl PyException" "w' = ?ko" by simp_all
    then show ?thesis by simp
  next
    case False
    with run have "r = Inr ()" "w' = ?ok" by simp_all
    with ok show ?thesis by (simp add: store_document_def)
  qed
  from run show "text_files w' = text_files w"
    by (cases "record_fails w ?doc") (simp_all add: store_document_def)
  from run show "outside w' = outside w"
    by (cases "record_fails w ?doc") simp_all
  from run show "q \<noteq> ?P \<Longrightarrow> json_files w' q = json_files w q"
    by (cases "record_fails w ?doc") (simp_all add: store_document_def)
qed

section \<open>The collaborators' calls\<close>

text \<open>A call applies the collaborator to the state the collaborators are in.\<close>

lemma call_run:
  assumes "call f w = (r, w')"
  shows "r = fst (f (outside w))" and "outside w' = snd (f (outside w))"
    and "trace w' = trace w" and "json_files w' = json_files w" and "text_files w' = text_files w"
  using assms by (auto simp: call_def outside_def split: prod.splits)

lemma connect_cases:
  assumes "connect svc w = (r, w')"
  shows "json_files w' = json_files w \<and> text_files w' = text_files w \<and>
         outside w' = snd (openmrs_connector_connect svc (outside w)) \<and>
         ((r = Inr () \<and> fst (openmrs_connector_connect svc (outside w)) = Returns () \<and>
           trace w' = trace w @ [EvConnect True]) \<or>
          (r = Inl PyException \<and> fst (openmrs_connector_connect svc (outside w)) = Raises \<and>
           trace w' = trace w @ [EvConnect False]))"
proof -
  obtain o1 w1 where c: "call (openmrs_connector_connect svc) w = (o1, w1)" by fastforce
  note f = call_run [OF c]
  show ?thesis
  proof (cases o1)
    case (Returns x)
    with assms c have "r = Inr ()" "w' = log (EvConnect True) w1"
      by (simp_all add: connect_def ret_def)
    with f Returns show ?thesis by simp
  next
    case Raises
    with assms c have "r = Inl PyException" "w' = log (EvConnect False) w1"
      by (simp_all add: connect_def raise_def)
    with f Raises show ?thesis by simp
  qed
qed

lemma fetch_cases:
  assumes "fetch svc loc tys w = (r, w')"
  shows "json_files w' = json_files w \<and> text_files w' = text_files w \<and>
         outside w' = snd (fetch_patient_encounters_by_location svc loc tys (outside w)) \<and>
         ((\<exists>v. r = Inr v \<and>
               fst (fetch_patient_encounters_by_location svc loc tys (outside w)) = Returns v \<and>
               trace w' = trace w @ [EvFetch loc tys (Returns v)]) \<or>
          (r = Inl PyException \<and>
           fst (fetch_patient_encounters_by_location svc loc tys (outside w)) = Raises \<and>
           trace w' = trace w @ [EvFetch loc tys Raises]))"
proof -
  obtain o1 w1 where c: "call (fetch_patient_encounters_by_location svc loc tys) w = (o1, w1)"
    by fastforce
  note f = call_run [OF c]
  show ?thesis
  proof (cases o1)
    case (Returns v)
    with assms c have "r = Inr v" "w' = log (EvFetch loc tys (Returns v)) w1"
      by (simp_all add: fetch_def ret_def)
    with f Returns show ?thesis by simp
  next
    case Raises
    with assms c have "r = Inl PyException" "w' = log (EvFetch loc tys Raises) w1"
      by (simp_all add: fetch_def raise_def)
    with f Raises show ?thesis by simp
  qed
qed

lemma process_patient_cases:
  assumes "process_patient svc p es loc w = (r, w')"
  shows "json_files w' = json_files w \<and> text_files w' = text_files w \<and>
         outside w' = snd (process_patient_and_encounters svc p es loc (outside w)) \<and>
         ((r = Inr () \<and> fst (process_patient_and_encounters svc p es loc (outside w)) = Returns () \<and>
           trace w' = trace w @ [EvProcess p es loc True]) \<or>
          (r = Inl PyException \<and>
           fst (process_patient_and_encounters svc p es loc (outside w)) = Raises \<and>
           trace w' = trace w @ [EvProcess p es loc False]))"
proof -
  obtain o1 w1 where c: "call (process_patient_and_encounters svc p es loc) w = (o1, w1)"
    by fastforce
  note f = call_run [OF c]
  show ?thesis
  proof (cases o1)
    case (Returns x)
    with assms c have "r = Inr ()" "w' = log (EvProcess p es loc True) w1"
      by (simp_all add: process_patient_def ret_def)
    with f Returns show ?thesis by simp
  next
    case Raises
    with assms c have "r = Inl PyException" "w' = log (EvProcess p es loc False) w1"
      by (simp_all add: process_patient_def raise_def)
    with f Raises show ?thesis by simp
  qed
qed

lemma process_patient_files_cases:
  assumes "process_patient_files svc w = (r, w')"
  shows "json_files w' = json_files w \<and> text_files w' = text_files w \<and>
         outside w' = snd (dhis2_connector_process_patient_files svc (outside w)) \<and>
         ((r = Inr () \<and> fst (dhis2_connector_process_patient_files svc (outside w)) = Returns () \<and>
           trace w' = trace w @ [EvUpload True]) \<or>
          (r = Inl PyException \<and>
           fst (dhis2_connector_process_patient_files svc (outside w)) = Raises \<and>
           trace w' = trace w @ [EvUpload False]))"
proof -
  obtain o1 w1 where c: "call (dhis2_connector_process_patient_files svc) w = (o1, w1)"
    by fastforce
  note f = call_run [OF c]
  show ?thesis
  proof (cases o1)
    case (Returns x)
    with assms c have "r = Inr ()" "w' = log (EvUpload True) w1"
      by (simp_all add: process_patient_files_def ret_def)
    with f Returns show ?thesis by simp
  next
    case Raises
    with assms c have "r = Inl PyException" "w' = log (EvUpload False) w1"
      by (simp_all add: process_patient_files_def raise_def)
    with f Raises show ?thesis by simp
  qed
qed

section \<open>The loop over the units\<close>

lemma unit_events_simps [simp]:
  "unit_events loc [] = []"
  "unit_events loc ((p, es) # units) =
     EvProcess p es loc True # EvUpdateProgress loc p # unit_events loc units"
  "unit_events loc (xs @ ys) = unit_events loc xs @ unit_events loc ys"
  by (simp_all add: unit_events_def)

text \<open>
  The loop runs through a prefix \<open>pre\<close> of the units: the collaborator is applied to each
  of them in order and returns, and each is recorded. It ends there when no unit is left,
  and otherwise stops at the next unit, whose call raised or whose record failed.
\<close>

lemma process_units_shape:
  assumes "process_units svc \<lparr>progress_file = ''logs/progress.json''\<rparr> loc units w = (r, w')"
  shows "\<exists>pre post. units = pre @ post \<and> units_return svc loc pre (outside w) \<and>
           (\<forall>l. completed w' l = completed w l @ (if l = loc then map fst pre else [])) \<and>
           (\<forall>q. q \<noteq> ''logs/progress.json'' \<longrightarrow> json_files w' q = json_files w q) \<and>
           text_files w' = text_files w \<and>
           (case post of
              [] \<Rightarrow> r = Inr () \<and> trace w' = trace w @ unit_events loc pre \<and>
                    outside w' = units_effect svc loc pre (outside w)
            | (p, es) # _ \<Rightarrow>
                r = Inl PyException \<and>
                trace w' = trace w @ unit_events loc pre @
                  failed_unit_events svc loc p es (units_effect svc loc pre (outside w)) \<and>
                outside w' =
                  snd (process_patient_and_encounters svc p es loc
                         (units_effect svc loc pre (outside w))))"
  using assms
proof (induction units arbitrary: w)
  case Nil
  then have "r = Inr ()" "w' = w" by (simp_all add: ret_def)
  then have "[] = [] @ ([] :: pydict) \<and> units_return svc loc [] (outside w) \<and>
           (\<forall>l. completed w' l = completed w l @ (if l = loc then map fst ([] :: pydict) else [])) \<and>
           (\<forall>q. q \<noteq> ''logs/progress.json'' \<longrightarrow> json_files w' q = json_files w q) \<and>
           text_files w' = text_files w \<and>
           (case ([] :: pydict) of
              [] \<Rightarrow> r = Inr () \<and> trace w' = trace w @ unit_events loc [] \<and>
                    outside w' = units_effect svc loc [] (outside w)
            | (p, es) # _ \<Rightarrow>
                r = Inl PyException \<and>
                trace w' = trace w @ unit_events loc [] @
                  failed_unit_events svc loc p es (units_effect svc loc [] (outside w)) \<and>
                outside w' =
                  snd (process_patient_and_encounters svc p es loc
                         (units_effect svc loc [] (outside w))))"
    by simp
  then show ?case by (rule_tac x = "[]" in exI, rule_tac x = "[]" in exI)
next
  case (Cons u units)
  let ?t = "\<lparr>progress_file = ''logs/progress.json''\<rparr>"
  obtain p es where u: "u = (p, es)" by (cases u)
  let ?call = "process_patient_and_encounters svc p es loc (outside w)"
  obtain r1 w1 where pp: "process_patient svc p es loc w = (r1, w1)" by fastforce
  from process_patient_cases [OF pp] have
    j1: "json_files w1 = json_files w" and x1: "text_files w1 = text_files w"
    and o1: "outside w1 = snd ?call"
    and c1: "(r1 = Inr () \<and> fst ?call = Returns () \<and> trace w1 = trace w @ [EvProcess p es loc True]) \<or>
             (r1 = Inl PyException \<and> fst ?call = Raises \<and>
              trace w1 = trace w @ [EvProcess p es loc False])"
    by auto
  have cw1: "\<And>l. completed w1 l = completed w l"
    using j1 by (simp add: completed_def load_document_def)
  have stop: ?case
    if r: "r = Inl PyException"
    and t: "trace w' = trace w @ failed_unit_events svc loc p es (outside w)"
    and o: "outside w' = snd ?call"
    and c: "\<forall>l. completed w' l = completed w l"
    and j: "\<forall>q. q \<noteq> ''logs/progress.json'' \<longrightarrow> json_files w' q = json_files w q"
    and x: "text_files w' = text_files w"
  proof -
    from r t o c j x have "u # units = [] @ (u # units) \<and> units_return svc loc [] (outside w) \<and>
           (\<forall>l. completed w' l = completed w l @ (if l = loc then map fst ([] :: pydict) else [])) \<and>
           (\<forall>q. q \<noteq> ''logs/progress.json'' \<longrightarrow> json_files w' q = json_files w q) \<and>
           text_files w' = text_files w \<and>
           (case u # units of
              [] \<Rightarrow> r = Inr () \<and> trace w' = trace w @ unit_events loc [] \<and>
                    outside w' = units_effect svc loc [] (outside w)
            | (p, es) # _ \<Rightarrow>
                r = Inl PyException \<and>
                trace w' = trace w @ unit_events loc [] @
                  failed_unit_events svc loc p es (units_effect svc loc [] (outside w)) \<and>
                outside w' =
                  snd (process_patient_and_encounters svc p es loc
                         (units_effect svc loc [] (outside w))))"
      by (simp add: u)
    then show ?thesis by (rule_tac x = "[]" in exI, rule_tac x = "u # units" in exI)
  qed
  show ?case
  proof (cases r1)
    case (Inl e)
    with pp Cons.prems u have "r = r1" "w' = w1" by (simp_all add: bind_def)
    with c1 Inl j1 x1 o1 cw1 show ?thesis
      by (intro stop) (auto simp: failed_unit_events_def)
  next
    case (Inr v)
    with c1 have ret: "fst ?call = Returns ()" and t1: "trace w1 = trace w @ [EvProcess p es loc True]"
      by auto
    obtain r2 w2 where up: "update_progress ?t loc p w1 = (r2, w2)" by fastforce
    note c2 = update_progress_run [OF up]
    show ?thesis
    proof (cases r2)
      case (Inl e)
      with pp up Inr Cons.prems u have "r = r2" "w' = w2" by (simp_all add: bind_def)
      with c2 Inl ret t1 j1 x1 o1 cw1 show ?thesis
        by (intro stop) (auto simp: failed_unit_events_def)
    next
      case (Inr v2)
      with c2(1) have t2: "trace w2 = trace w1 @ [EvUpdateProgress loc p]"
        and k2: "\<forall>l. completed w2 l = completed w1 l @ (if l = loc then [p] else [])"
        by auto
      from pp up Inr \<open>r1 = Inr v\<close> Cons.prems u
      have rest: "process_units svc ?t loc units w2 = (r, w')" by (simp add: bind_def)
      have o2: "outside w2 = snd ?call" using c2(4) o1 by simp
      from Cons.IH [OF rest] obtain pre post where ih:
        "units = pre @ post" "units_return svc loc pre (outside w2)"
        "\<forall>l. completed w' l = completed w2 l @ (if l = loc then map fst pre else [])"
        "\<forall>q. q \<noteq> ''logs/progress.json'' \<longrightarrow> json_files w' q = json_files w2 q"
        "text_files w' = text_files w2"
        "case post of
              [] \<Rightarrow> r = Inr () \<and> trace w' = trace w2 @ unit_events loc pre \<and>
                    outside w' = units_effect svc loc pre (outside w2)
            | (p, es) # _ \<Rightarrow>
                r = Inl PyException \<and>
                trace w' = trace w2 @ unit_events loc pre @
                  failed_unit_events svc loc p es (units_effect svc loc pre (outside w2)) \<and>
                outside w' =
                  snd (process_patient_and_encounters svc p es loc
                         (units_effect svc loc pre (outside w2)))"
        by blast
      have a: "u # units = (u # pre) @ post" using ih(1) by simp
      have b: "units_return svc loc (u # pre) (outside w)" using ih(2) ret o2 by (simp add: u)
      have c: "\<forall>l. completed w' l = completed w l @ (if l = loc then map fst (u # pre) else [])"
        using ih(3) k2 cw1 by (simp add: u)
      have d: "\<forall>q. q \<noteq> ''logs/progress.json'' \<longrightarrow> json_files w' q = json_files w q"
        using ih(4) c2(2) j1 by simp
      have e: "text_files w' = text_files w" using ih(5) c2(3) x1 by simp
      have f: "case post of
              [] \<Rightarrow> r = Inr () \<and> trace w' = trace w @ unit_events loc (u # pre) \<and>
                    outside w' = units_effect svc loc (u # pre) (outside w)
            | (p, es) # _ \<Rightarrow>
                r = Inl PyException \<and>
                trace w' = trace w @ unit_events loc (u # pre) @
                  failed_unit_events svc loc p es (units_effect svc loc (u # pre) (outside w)) \<and>
                outside w' =
                  snd (process_patient_and_encounters svc p es loc
                         (units_effect svc loc (u # pre) (outside w)))"
        using ih(6) t1 t2 o2 by (cases post) (auto simp: u)
      from a b c d e f show ?thesis
        by (rule_tac x = "u # pre" in exI, rule_tac x = post in exI) (intro conjI)
    qed
  qed
qed


section \<open>The runs of \<^verbatim>\<open>process_location\<close>\<close>

lemma new_events_eq: "trace w' = trace w @ evs \<Longrightarrow> new_events w w' = evs"
  by (simp add: new_events_def)

lemma snapshot_run:
  assumes "bind (truncate_file ''patients_to_sync.json'') (\<lambda>_.
           bind (truncate_file ''encounters_to_process.json'') (\<lambda>_.
           bind (json_dump m ''encounters_to_process.json'') (\<lambda>_.
           bind (json_load ''encounters_to_process.json'') k))) w = (r, w')"
  shows "\<exists>w1. k (dict_of m) w1 = (r, w') \<and> trace w1 = trace w @ snapshot_events m \<and>
              json_files w1 ''encounters_to_process.json'' = Some (JsonObject m) \<and>
              json_files w1 ''logs/progress.json'' = json_files w ''logs/progress.json'' \<and>
              text_files w1 = text_files w \<and> outside w1 = outside w"
  using assms
  by (simp add: bind_def truncate_file_def json_dump_def json_load_def ret_def snapshot_events_def)
     (rule exI, rule conjI, assumption, simp)

text \<open>
  The \<^verbatim>\<open>try\<close> statement, started with the collaborators in state \<open>outside w\<close>: the fetch
  raises, or returns \<open>None\<close>, or returns a map and the loop stops at a unit, or returns a
  map and the loop runs through all of its units.
\<close>

lemma fetch_and_process_shape:
  fixes w w' :: "'x world"
  assumes "try_except (fetch_and_process svc \<lparr>progress_file = ''logs/progress.json''\<rparr> loc tys)
             (sys_exit 1) w = (r, w')"
  defines "ft \<equiv> fetch_patient_encounters_by_location svc loc tys (outside w)"
  shows "text_files w' = text_files w \<and>
    ((r = Inl (SystemExit 1) \<and> trace w' = trace w @ [EvFetch loc tys Raises] \<and>
        json_files w' = json_files w \<and> fst ft = Raises \<and> outside w' = snd ft)
   \<or> (r = Inl (SystemExit 1) \<and> trace w' = trace w @ [EvFetch loc tys (Returns None)] \<and>
        json_files w' = json_files w \<and> fst ft = Returns None \<and> outside w' = snd ft)
   \<or> (\<exists>m pre p es post.
        r = Inl (SystemExit 1) \<and> dict_of m = pre @ (p, es) # post \<and>
        trace w' = trace w @ EvFetch loc tys (Returns (Some m)) # snapshot_events m @
                     unit_events loc pre @
                     failed_unit_events svc loc p es (units_effect svc loc pre (snd ft)) \<and>
        json_files w' ''encounters_to_process.json'' = Some (JsonObject m) \<and>
        (\<forall>l. completed w' l = completed w l @ (if l = loc then map fst pre else [])) \<and>
        fst ft = Returns (Some m) \<and> units_return svc loc pre (snd ft) \<and>
        outside w' =
          snd (process_patient_and_encounters svc p es loc (units_effect svc loc pre (snd ft))))
   \<or> (\<exists>m.
        r = Inr () \<and>
        trace w' = trace w @ EvFetch loc tys (Returns (Some m)) # snapshot_events m @
                     unit_events loc (dict_of m) \<and>
        json_files w' ''encounters_to_process.json'' = Some (JsonObject m) \<and>
        (\<forall>l. completed w' l = completed w l @ (if l = loc then map fst (dict_of m) else [])) \<and>
        fst ft = Returns (Some m) \<and> units_return svc loc (dict_of m) (snd ft) \<and>
        outside w' = units_effect svc loc (dict_of m) (snd ft)))"
proof -
  let ?t = "\<lparr>progress_file = ''logs/progress.json''\<rparr>"
  obtain r1 w1 where f: "fetch svc loc tys w = (r1, w1)" by fastforce
  from fetch_cases [OF f] have j1: "json_files w1 = json_files w"
    and x1: "text_files w1 = text_files w" and o1: "outside w1 = snd ft"
    and fc: "(\<exists>v. r1 = Inr v \<and> fst ft = Returns v \<and>
                  trace w1 = trace w @ [EvFetch loc tys (Returns v)]) \<or>
             (r1 = Inl PyException \<and> fst ft = Raises \<and>
              trace w1 = trace w @ [EvFetch loc tys Raises])"
    unfolding ft_def by auto
  show ?thesis
  proof (cases r1)
    case (Inl e)
    with fc have e: "e = PyException" and t: "trace w1 = trace w @ [EvFetch loc tys Raises]"
      and c: "fst ft = Raises" by auto
    from f Inl e have "fetch_and_process svc ?t loc tys w = (Inl PyException, w1)"
      by (simp add: fetch_and_process_def bind_def)
    with assms(1) have "r = Inl (SystemExit 1)" "w' = w1"
      by (simp_all add: try_except_def sys_exit_def raise_def)
    with t j1 x1 o1 c show ?thesis by simp
  next
    case (Inr v)
    with fc have t: "trace w1 = trace w @ [EvFetch loc tys (Returns v)]"
      and c: "fst ft = Returns v" by auto
    show ?thesis
    proof (cases v)
      case None
      with f Inr have "fetch_and_process svc ?t loc tys w = (Inl (SystemExit 1), w1)"
        by (simp add: fetch_and_process_def bind_def sys_exit_def raise_def)
      with assms(1) have "r = Inl (SystemExit 1)" "w' = w1"
        by (simp_all add: try_except_def)
      with t j1 x1 o1 c None show ?thesis by simp
    next
      case (Some m)
      obtain r2 w2 where body: "fetch_and_process svc ?t loc tys w = (r2, w2)" by fastforce
      with f Inr Some have
        "bind (truncate_file ''patients_to_sync.json'') (\<lambda>_.
         bind (truncate_file ''encounters_to_process.json'') (\<lambda>_.
         bind (json_dump m ''encounters_to_process.json'') (\<lambda>_.
         bind (json_load ''encounters_to_process.json'')
              (process_units svc ?t loc)))) w1 = (r2, w2)"
        by (simp add: fetch_and_process_def bind_def)
      from snapshot_run [OF this] obtain w3 where
        pu: "process_units svc ?t loc (dict_of m) w3 = (r2, w2)"
        and t3: "trace w3 = trace w1 @ snapshot_events m"
        and s3: "json_files w3 ''encounters_to_process.json'' = Some (JsonObject m)"
        and p3: "json_files w3 ''logs/progress.json'' = json_files w1 ''logs/progress.json''"
        and x3: "text_files w3 = text_files w1"
        and o3: "outside w3 = outside w1"
        by blast
      have c3: "\<And>l. completed w3 l = completed w l"
        using p3 j1 by (simp add: completed_def load_document_def)
      from o3 o1 have o3': "outside w3 = snd ft" by simp
      from process_units_shape [OF pu] obtain pre post where sh:
        "dict_of m = pre @ post" "units_return svc loc pre (outside w3)"
        "\<forall>l. completed w2 l = completed w3 l @ (if l = loc then map fst pre else [])"
        "\<forall>q. q \<noteq> ''logs/progress.json'' \<longrightarrow> json_files w2 q = json_files w3 q"
        "text_files w2 = text_files w3"
        "case post of
              [] \<Rightarrow> r2 = Inr () \<and> trace w2 = trace w3 @ unit_events loc pre \<and>
                    outside w2 = units_effect svc loc pre (outside w3)
            | (p, es) # _ \<Rightarrow>
                r2 = Inl PyException \<and>
                trace w2 = trace w3 @ unit_events loc pre @
                  failed_unit_events svc loc p es (units_effect svc loc pre (outside w3)) \<and>
                outside w2 =
                  snd (process_patient_and_encounters svc p es loc
                         (units_effect svc loc pre (outside w3)))"
        by blast
      from sh(4) s3 have s2: "json_files w2 ''encounters_to_process.json'' = Some (JsonObject m)"
        by simp
      from sh(5) x3 x1 have x2: "text_files w2 = text_files w" by simp
      from sh(3) c3 have c2: "\<forall>l. completed w2 l = completed w l @ (if l = loc then map fst pre else [])"
        by simp
      from c Some have cm: "fst ft = Returns (Some m)" by simp
      from sh(2) o3' have ur: "units_return svc loc pre (snd ft)" by simp
      show ?thesis
      proof (cases post)
        case Nil
        with sh(6) have r2: "r2 = Inr ()" and t2: "trace w2 = trace w3 @ unit_events loc pre"
          and o2: "outside w2 = units_effect svc loc pre (outside w3)" by simp_all
        from r2 body assms(1) have rw: "r = Inr ()" "w' = w2" by (simp_all add: try_except_def)
        from Nil sh(1) have pre: "pre = dict_of m" by simp
        from t2 t3 t Some
        have "trace w2 = trace w @ EvFetch loc tys (Returns (Some m)) # snapshot_events m @
                     unit_events loc pre"
          by simp
        with rw pre s2 x2 c2 cm ur o2 o3' show ?thesis by simp
      next
        case (Cons u post')
        obtain p es where u: "u = (p, es)" by (cases u)
        from Cons u sh(6) have r2: "r2 = Inl PyException"
          and t2: "trace w2 = trace w3 @ unit_events loc pre @
                  failed_unit_events svc loc p es (units_effect svc loc pre (outside w3))"
          and o2: "outside w2 =
                  snd (process_patient_and_encounters svc p es loc
                         (units_effect svc loc pre (outside w3)))"
          by simp_all
        from r2 body assms(1) have rw: "r = Inl (SystemExit 1)" "w' = w2"
          by (simp_all add: try_except_def sys_exit_def raise_def)
        from Cons u sh(1) have d: "dict_of m = pre @ (p, es) # post'" by simp
        from t2 t3 t Some o3'
        have tr: "trace w2 = trace w @ EvFetch loc tys (Returns (Some m)) # snapshot_events m @
                     unit_events loc pre @
                     failed_unit_events svc loc p es (units_effect svc loc pre (snd ft))"
          by simp
        from o2 o3' have oo: "outside w2 =
          snd (process_patient_and_encounters svc p es loc (units_effect svc loc pre (snd ft)))"
          by simp
        from rw d tr s2 c2 cm ur oo have "r = Inl (SystemExit 1) \<and> dict_of m = pre @ (p, es) # post' \<and>
          trace w' = trace w @ EvFetch loc tys (Returns (Some m)) # snapshot_events m @
                     unit_events loc pre @
                     failed_unit_events svc loc p es (units_effect svc loc pre (snd ft)) \<and>
          json_files w' ''encounters_to_process.json'' = Some (JsonObject m) \<and>
          (\<forall>l. completed w' l = completed w l @ (if l = loc then map fst pre else [])) \<and>
          fst ft = Returns (Some m) \<and> units_return svc loc pre (snd ft) \<and>
          outside w' =
            snd (process_patient_and_encounters svc p es loc (units_effect svc loc pre (snd ft)))"
          by simp
        then have "\<exists>m pre p es post.
          r = Inl (SystemExit 1) \<and> dict_of m = pre @ (p, es) # post \<and>
          trace w' = trace w @ EvFetch loc tys (Returns (Some m)) # snapshot_events m @
                     unit_events loc pre @
                     failed_unit_events svc loc p es (units_effect svc loc pre (snd ft)) \<and>
          json_files w' ''encounters_to_process.json'' = Some (JsonObject m) \<and>
          (\<forall>l. completed w' l = completed w l @ (if l = loc then map fst pre else [])) \<and>
          fst ft = Returns (Some m) \<and> units_return svc loc pre (snd ft) \<and>
          outside w' =
            snd (process_patient_and_encounters svc p es loc (units_effect svc loc pre (snd ft)))"
          by (intro exI)
        moreover from \<open>w' = w2\<close> x2 have "text_files w' = text_files w" by simp
        ultimately show ?thesis by simp
      qed
    qed
  qed
qed

text \<open>
  The stages before the \<^verbatim>\<open>try\<close> statement: the staging directory cleared, the tracker
  made and asked, the location reset when it is new.
\<close>

lemma prologue_shape:
  assumes "bind (\<lambda>w. clear_patients_to_sync_folder (log (EvBegin loc) w)) (\<lambda>_.
           bind (new_ProgressTracker ''logs/progress.json'') (\<lambda>progress_tracker.
           bind (get_progress progress_tracker loc) (\<lambda>handled_encounters.
           bind (if handled_encounters \<noteq> None then ret ()
                 else reset_progress progress_tracker loc) (\<lambda>_. k progress_tracker)))) w = (r, w')"
  shows "(\<exists>us. r \<noteq> Inr () \<and> trace w' = trace w @ EvBegin loc # EvClear # us \<and> list_all is_unlink us \<and>
              (r = Inl PyException \<and> us = [] \<and> patients_to_sync w = None \<or>
               r = Inl (SystemExit 1) \<and> (\<exists>n. us \<noteq> [] \<and> last us = EvUnlink n False)) \<and>
              json_files w' = json_files w \<and> text_files w' = text_files w \<and>
              outside w' = at_connect loc w)
       \<or> (\<exists>us w1. k \<lparr>progress_file = ''logs/progress.json''\<rparr> w1 = (r, w') \<and>
              trace w1 = trace w @ EvBegin loc # EvClear # us @
                 tracker_events loc (map_of (load_document ''logs/progress.json'' w) loc) \<and>
              list_all is_unlink_ok us \<and>
              (\<forall>l. completed w1 l = completed w l) \<and>
              (\<forall>q. q \<noteq> ''logs/progress.json'' \<longrightarrow> json_files w1 q = json_files w q) \<and>
              text_files w1 = text_files w \<and> outside w1 = at_connect loc w)"
proof -
  let ?P = "''logs/progress.json''"
  let ?t = "\<lparr>progress_file = ?P\<rparr>"
  let ?g = "map_of (load_document ?P w) loc"
  obtain r0 w0 where c: "clear_patients_to_sync_folder (log (EvBegin loc) w) = (r0, w0)"
    by fastforce
  then have o0: "outside w0 = at_connect loc w" by (simp add: at_connect_def)
  from clear_frame [OF c] obtain us where
    j0: "json_files w0 = json_files w" and x0: "text_files w0 = text_files w"
    and t0: "trace w0 = trace w @ EvBegin loc # EvClear # us" and u0: "list_all is_unlink us"
    and r0: "r0 = Inr () \<and> list_all is_unlink_ok us \<or>
             r0 = Inl PyException \<and> us = [] \<and> patients_to_sync w = None \<or>
             r0 = Inl (SystemExit 1) \<and> (\<exists>n. us \<noteq> [] \<and> last us = EvUnlink n False)"
    by auto
  show ?thesis
  proof (cases r0)
    case (Inl e)
    with c assms have "r = r0" "w' = w0" by (simp_all add: bind_def)
    with Inl r0 j0 x0 t0 u0 o0 show ?thesis by auto
  next
    case (Inr v)
    with r0 have ok: "list_all is_unlink_ok us" by auto
    have ld: "load_document ?P w0 = load_document ?P w"
      using j0 by (simp add: load_document_def)
    let ?w2 = "log (EvGetProgress loc ?g) (log (EvNewTracker ?P) w0)"
    obtain r3 w3 where rs: "(if ?g \<noteq> None then ret () else reset_progress ?t loc) ?w2 = (r3, w3)"
      by fastforce
    have ld2: "load_document ?P ?w2 = load_document ?P w" using ld by (simp add: load_document_def)
    have st: "r3 = Inr () \<and> trace w3 = trace ?w2 @ (if ?g = None then [EvResetProgress loc] else []) \<and>
              (\<forall>l. completed w3 l = completed ?w2 l) \<and>
              (\<forall>q. q \<noteq> ?P \<longrightarrow> json_files w3 q = json_files ?w2 q) \<and>
              text_files w3 = text_files ?w2 \<and> outside w3 = outside ?w2"
    proof (cases "?g = None")
      case True
      with rs have rp: "reset_progress ?t loc ?w2 = (r3, w3)" by simp
      from True ld2 have "map_of (load_document ?P ?w2) loc = None" by simp
      from reset_progress_run [OF rp this] True show ?thesis by simp
    next
      case False
      with rs show ?thesis by (simp add: ret_def)
    qed
    have run: "k ?t w3 = (r, w')"
      using assms c Inr rs st ld
      by (simp add: bind_def new_ProgressTracker_def get_progress_def ret_def Let_def)
    have cw: "\<And>l. completed ?w2 l = completed w l"
      using j0 by (simp add: completed_def load_document_def)
    have "trace w3 = trace w @ EvBegin loc # EvClear # us @ tracker_events loc ?g"
      using st t0 by (simp add: tracker_events_def)
    moreover have "\<forall>l. completed w3 l = completed w l" using st cw by simp
    moreover have "\<forall>q. q \<noteq> ?P \<longrightarrow> json_files w3 q = json_files w q" using st j0 by simp
    moreover have "text_files w3 = text_files w" using st x0 by simp
    moreover have "outside w3 = at_connect loc w" using st o0 by simp
    ultimately have "k ?t w3 = (r, w') \<and>
              trace w3 = trace w @ EvBegin loc # EvClear # us @ tracker_events loc ?g \<and>
              list_all is_unlink_ok us \<and>
              (\<forall>l. completed w3 l = completed w l) \<and>
              (\<forall>q. q \<noteq> ?P \<longrightarrow> json_files w3 q = json_files w q) \<and>
              text_files w3 = text_files w \<and> outside w3 = at_connect loc w"
      using run ok by simp
    then show ?thesis by (intro disjI2 exI)
  qed
qed


text \<open>
  Every run of \<^verbatim>\<open>process_location\<close> ends in one of six ways; each fixes the events
  of the run, its result, what it leaves in the two documents, and what the collaborators
  were applied to.
\<close>

lemma process_location_cases:
  fixes w w' :: "'x world"
  assumes run: "process_location loc svc t w = (r, w')"
  defines "g \<equiv> map_of (load_document ''logs/progress.json'' w) loc"
  obtains
    (clear_failed) us where
      "trace w' = trace w @ EvBegin loc # EvClear # us"
      "list_all is_unlink us"
      "r = Inl PyException \<and> us = [] \<and> patients_to_sync w = None \<or>
       r = Inl (SystemExit 1) \<and> (\<exists>n. us \<noteq> [] \<and> last us = EvUnlink n False)"
      "json_files w' = json_files w"
      "outside w' = at_connect loc w"
  | (connect_failed) us where
      "trace w' = trace w @ EvBegin loc # EvClear # us @ tracker_events loc g @ [EvConnect False]"
      "list_all is_unlink_ok us"
      "r = Inl PyException"
      "\<forall>l. completed w' l = completed w l"
      "json_files w' ''encounters_to_process.json'' = json_files w ''encounters_to_process.json''"
      "fst (openmrs_connector_connect svc (at_connect loc w)) = Raises"
      "outside w' = at_fetch svc loc w"
  | (fetch_raised) us where
      "trace w' = trace w @ EvBegin loc # EvClear # us @ tracker_events loc g @
                    [EvConnect True, EvFetch loc [] Raises]"
      "list_all is_unlink_ok us"
      "r = Inl (SystemExit 1)"
      "\<forall>l. completed w' l = completed w l"
      "json_files w' ''encounters_to_process.json'' = json_files w ''encounters_to_process.json''"
      "fst (fetch_patient_encounters_by_location svc loc [] (at_fetch svc loc w)) = Raises"
      "outside w' = at_loop svc loc w"
  | (fetch_none) us where
      "trace w' = trace w @ EvBegin loc # EvClear # us @ tracker_events loc g @
                    [EvConnect True, EvFetch loc [] (Returns None)]"
      "list_all is_unlink_ok us"
      "r = Inl (SystemExit 1)"
      "\<forall>l. completed w' l = completed w l"
      "json_files w' ''encounters_to_process.json'' = json_files w ''encounters_to_process.json''"
      "fst (fetch_patient_encounters_by_location svc loc [] (at_fetch svc loc w)) = Returns None"
      "outside w' = at_loop svc loc w"
  | (unit_failed) us m pre p es post where
      "trace w' = trace w @ EvBegin loc # EvClear # us @ tracker_events loc g @
                    EvConnect True # EvFetch loc [] (Returns (Some m)) # snapshot_events m @
                    unit_events loc pre @
                    failed_unit_events svc loc p es (units_effect svc loc pre (at_loop svc loc w))"
      "list_all is_unlink_ok us"
      "dict_of m = pre @ (p, es) # post"
      "r = Inl (SystemExit 1)"
      "\<forall>l. completed w' l = completed w l @ (if l = loc then map fst pre else [])"
      "json_files w' ''encounters_to_process.json'' = Some (JsonObject m)"
      "fst (fetch_patient_encounters_by_location svc loc [] (at_fetch svc loc w)) =
         Returns (Some m)"
      "units_return svc loc pre (at_loop svc loc w)"
      "outside w' = snd (process_patient_and_encounters svc p es loc
                           (units_effect svc loc pre (at_loop svc loc w)))"
  | (uploaded) us m u where
      "trace w' = trace w @ EvBegin loc # EvClear # us @ tracker_events loc g @
                    EvConnect True # EvFetch loc [] (Returns (Some m)) # snapshot_events m @
                    unit_events loc (dict_of m) @ [EvUpload u]"
      "list_all is_unlink_ok us"
      "r = (if u then Inr () else Inl PyException)"
      "\<forall>l. completed w' l = completed w l @ (if l = loc then map fst (dict_of m) else [])"
      "json_files w' ''encounters_to_process.json'' = Some (JsonObject m)"
      "fst (fetch_patient_encounters_by_location svc loc [] (at_fetch svc loc w)) =
         Returns (Some m)"
      "units_return svc loc (dict_of m) (at_loop svc loc w)"
      "outside w' = snd (dhis2_connector_process_patient_files svc
                           (units_effect svc loc (dict_of m) (at_loop svc loc w)))"
      "u = (fst (dhis2_connector_process_patient_files svc
                   (units_effect svc loc (dict_of m) (at_loop svc loc w))) = Returns ())"
proof -
  let ?P = "''logs/progress.json''"
  let ?S = "''encounters_to_process.json''"
  let ?k = "\<lambda>progress_tracker.
        bind (connect svc) (\<lambda>_.
        bind (try_except (fetch_and_process svc progress_tracker loc []) (sys_exit 1)) (\<lambda>_.
        process_patient_files svc))"
  from run have run': "bind (\<lambda>w. clear_patients_to_sync_folder (log (EvBegin loc) w)) (\<lambda>_.
           bind (new_ProgressTracker ''logs/progress.json'') (\<lambda>progress_tracker.
           bind (get_progress progress_tracker loc) (\<lambda>handled_encounters.
           bind (if handled_encounters \<noteq> None then ret ()
                 else reset_progress progress_tracker loc) (\<lambda>_. ?k progress_tracker)))) w = (r, w')"
    unfolding process_location_def .
  from prologue_shape [OF run', folded g_def] consider
    (a) us where "r \<noteq> Inr ()" "trace w' = trace w @ EvBegin loc # EvClear # us" "list_all is_unlink us"
         "r = Inl PyException \<and> us = [] \<and> patients_to_sync w = None \<or>
          r = Inl (SystemExit 1) \<and> (\<exists>n. us \<noteq> [] \<and> last us = EvUnlink n False)"
         "json_files w' = json_files w" "text_files w' = text_files w"
         "outside w' = at_connect loc w"
  | (b) us w1 where "?k \<lparr>progress_file = ?P\<rparr> w1 = (r, w')"
         "trace w1 = trace w @ EvBegin loc # EvClear # us @ tracker_events loc g"
         "list_all is_unlink_ok us"
         "\<forall>l. completed w1 l = completed w l"
         "\<forall>q. q \<noteq> ?P \<longrightarrow> json_files w1 q = json_files w q"
         "outside w1 = at_connect loc w"
    apply -
    apply (erule disjE)
     apply (elim exE conjE)
     apply (rule that(1); assumption)
    apply (elim exE conjE)
    apply (rule that(2); assumption)
    done
  then show thesis
  proof cases
    case a
    from a(2-5) a(7) show thesis by (rule clear_failed)
  next
    case b
    from b(5) have s1: "json_files w1 ?S = json_files w ?S" by simp
    obtain r2 w2 where c: "connect svc w1 = (r2, w2)" by fastforce
    from connect_cases [OF c] b(6) have j2: "json_files w2 = json_files w1"
      and o2: "outside w2 = at_fetch svc loc w"
      and c2: "(r2 = Inr () \<and> trace w2 = trace w1 @ [EvConnect True]) \<or>
               (r2 = Inl PyException \<and>
                fst (openmrs_connector_connect svc (at_connect loc w)) = Raises \<and>
                trace w2 = trace w1 @ [EvConnect False])"
      by (auto simp: at_fetch_def)
    have cw2: "\<forall>l. completed w2 l = completed w l"
      using j2 b(4) by (simp add: completed_def load_document_def)
    show thesis
    proof (cases r2)
      case (Inl e)
      with c b(1) have "r = r2" "w' = w2" by (simp_all add: bind_def)
      with Inl c2 b(2) cw2 j2 s1 o2 have
        "trace w' = trace w @ EvBegin loc # EvClear # us @ tracker_events loc g @ [EvConnect False]"
        "r = Inl PyException" "\<forall>l. completed w' l = completed w l"
        "json_files w' ?S = json_files w ?S"
        "fst (openmrs_connector_connect svc (at_connect loc w)) = Raises"
        "outside w' = at_fetch svc loc w"
        by auto
      from this(1) b(3) this(2-6) show thesis by (rule connect_failed)
    next
      case (Inr v)
      with c2 have t2: "trace w2 = trace w1 @ [EvConnect True]" by auto
      obtain r3 w3 where f: "try_except (fetch_and_process svc \<lparr>progress_file = ?P\<rparr> loc [])
             (sys_exit 1) w2 = (r3, w3)" by fastforce
      from c Inr f b(1) have rest: "bind (\<lambda>w. (r3, w3)) (\<lambda>_. process_patient_files svc) w2 = (r, w')"
        by (simp add: bind_def)
      from fetch_and_process_shape [OF f, unfolded o2, folded at_loop_def] consider
        (fr) "r3 = Inl (SystemExit 1)" "trace w3 = trace w2 @ [EvFetch loc [] Raises]"
             "json_files w3 = json_files w2"
             "fst (fetch_patient_encounters_by_location svc loc [] (at_fetch svc loc w)) = Raises"
             "outside w3 = at_loop svc loc w"
      | (fn) "r3 = Inl (SystemExit 1)" "trace w3 = trace w2 @ [EvFetch loc [] (Returns None)]"
             "json_files w3 = json_files w2"
             "fst (fetch_patient_encounters_by_location svc loc [] (at_fetch svc loc w)) =
                Returns None"
             "outside w3 = at_loop svc loc w"
      | (ur) m pre p es post where
             "r3 = Inl (SystemExit 1)" "dict_of m = pre @ (p, es) # post"
             "trace w3 = trace w2 @ EvFetch loc [] (Returns (Some m)) # snapshot_events m @
                     unit_events loc pre @
                     failed_unit_events svc loc p es (units_effect svc loc pre (at_loop svc loc w))"
             "json_files w3 ?S = Some (JsonObject m)"
             "\<forall>l. completed w3 l = completed w2 l @ (if l = loc then map fst pre else [])"
             "fst (fetch_patient_encounters_by_location svc loc [] (at_fetch svc loc w)) =
                Returns (Some m)"
             "units_return svc loc pre (at_loop svc loc w)"
             "outside w3 = snd (process_patient_and_encounters svc p es loc
                                  (units_effect svc loc pre (at_loop svc loc w)))"
      | (ok) m where "r3 = Inr ()"
             "trace w3 = trace w2 @ EvFetch loc [] (Returns (Some m)) # snapshot_events m @
                     unit_events loc (dict_of m)"
             "json_files w3 ?S = Some (JsonObject m)"
             "\<forall>l. completed w3 l = completed w2 l @ (if l = loc then map fst (dict_of m) else [])"
             "fst (fetch_patient_encounters_by_location svc loc [] (at_fetch svc loc w)) =
                Returns (Some m)"
             "units_return svc loc (dict_of m) (at_loop svc loc w)"
             "outside w3 = units_effect svc loc (dict_of m) (at_loop svc loc w)"
        apply -
        apply (elim conjE disjE exE)
           apply (rule that(1); assumption)
          apply (rule that(2); assumption)
         apply (rule that(3); assumption)
        apply (rule that(4); assumption)
        done
      then show thesis
      proof cases
        case fr
        with rest have "r = Inl (SystemExit 1)" "w' = w3" by (simp_all add: bind_def)
        moreover from fr(3) cw2 have "\<forall>l. completed w3 l = completed w l"
          by (simp add: completed_def load_document_def)
        ultimately have
          "trace w' = trace w @ EvBegin loc # EvClear # us @ tracker_events loc g @
                    [EvConnect True, EvFetch loc [] Raises]"
          "r = Inl (SystemExit 1)" "\<forall>l. completed w' l = completed w l"
          "json_files w' ?S = json_files w ?S"
          "fst (fetch_patient_encounters_by_location svc loc [] (at_fetch svc loc w)) = Raises"
          "outside w' = at_loop svc loc w"
          using fr t2 b(2) j2 s1 by simp_all
        from this(1) b(3) this(2-6) show thesis by (rule fetch_raised)
      next
        case fn
        with rest have "r = Inl (SystemExit 1)" "w' = w3" by (simp_all add: bind_def)
        moreover from fn(3) cw2 have "\<forall>l. completed w3 l = completed w l"
          by (simp add: completed_def load_document_def)
        ultimately have
          "trace w' = trace w @ EvBegin loc # EvClear # us @ tracker_events loc g @
                    [EvConnect True, EvFetch loc [] (Returns None)]"
          "r = Inl (SystemExit 1)" "\<forall>l. completed w' l = completed w l"
          "json_files w' ?S = json_files w ?S"
          "fst (fetch_patient_encounters_by_location svc loc [] (at_fetch svc loc w)) =
             Returns None"
          "outside w' = at_loop svc loc w"
          using fn t2 b(2) j2 s1 by simp_all
        from this(1) b(3) this(2-6) show thesis by (rule fetch_none)
      next
        case ur
        with rest have rw: "r = Inl (SystemExit 1)" "w' = w3" by (simp_all add: bind_def)
        then have
          "trace w' = trace w @ EvBegin loc # EvClear # us @ tracker_events loc g @
                    EvConnect True # EvFetch loc [] (Returns (Some m)) # snapshot_events m @
                    unit_events loc pre @
                    failed_unit_events svc loc p es (units_effect svc loc pre (at_loop svc loc w))"
          "\<forall>l. completed w' l = completed w l @ (if l = loc then map fst pre else [])"
          "json_files w' ?S = Some (JsonObject m)"
          "outside w' = snd (process_patient_and_encounters svc p es loc
                               (units_effect svc loc pre (at_loop svc loc w)))"
          using ur t2 b(2) cw2 by simp_all
        from this(1) b(3) ur(2) rw(1) this(2) this(3) ur(6) ur(7) this(4)
        show thesis by (rule unit_failed)
      next
        case ok
        with rest have up: "process_patient_files svc w3 = (r, w')" by (simp add: bind_def)
        define u where "u = (r = Inr ())"
        from process_patient_files_cases [OF up] ok(7) have
          j4: "json_files w' = json_files w3"
          and u4: "r = (if u then Inr () else Inl PyException)" "trace w' = trace w3 @ [EvUpload u]"
          and o4: "outside w' = snd (dhis2_connector_process_patient_files svc
                           (units_effect svc loc (dict_of m) (at_loop svc loc w)))"
          and ud: "u = (fst (dhis2_connector_process_patient_files svc
                   (units_effect svc loc (dict_of m) (at_loop svc loc w))) = Returns ())"
          by (auto simp: u_def)
        from j4 have "\<forall>l. completed w' l = completed w3 l"
          by (simp add: completed_def load_document_def)
        then have
          "trace w' = trace w @ EvBegin loc # EvClear # us @ tracker_events loc g @
                    EvConnect True # EvFetch loc [] (Returns (Some m)) # snapshot_events m @
                    unit_events loc (dict_of m) @ [EvUpload u]"
          "\<forall>l. completed w' l = completed w l @ (if l = loc then map fst (dict_of m) else [])"
          "json_files w' ?S = Some (JsonObject m)"
          using ok t2 b(2) cw2 u4 j4 by simp_all
        from this(1) b(3) u4(1) this(2) this(3) ok(5) ok(6) o4 ud
        show thesis by (rule uploaded)
      qed
    qed
  qed
qed


section \<open>The events of a run, by kind\<close>

lemma unlink_ok_is_unlink: "list_all is_unlink_ok us \<Longrightarrow> list_all is_unlink us"
  by (induction us) (auto elim: is_unlink_ok.elims)

lemma filter_unlinks:
  "list_all is_unlink us \<Longrightarrow> (\<And>e. is_unlink e \<Longrightarrow> \<not> P e) \<Longrightarrow> filter P us = []"
  by (induction us) auto

lemma in_unlinks: "list_all is_unlink us \<Longrightarrow> e \<in> set us \<Longrightarrow> is_unlink e"
  by (simp add: list_all_iff)

lemma in_unlinks_ok: "list_all is_unlink_ok us \<Longrightarrow> e \<in> set us \<Longrightarrow> is_unlink_ok e"
  by (simp add: list_all_iff)

lemma set_unit_events:
  "e \<in> set (unit_events loc units) \<longleftrightarrow>
     (\<exists>p es. (p, es) \<in> set units \<and> (e = EvProcess p es loc True \<or> e = EvUpdateProgress loc p))"
proof (induction units)
  case Nil
  show ?case by simp
next
  case (Cons u units)
  obtain p es where u: "u = (p, es)" by (cases u)
  show ?case unfolding u using Cons.IH by auto
qed

lemma filter_process_unit_events:
  "filter is_process (unit_events loc units) = map (\<lambda>(p, es). EvProcess p es loc True) units"
proof (induction units)
  case Nil
  show ?case by simp
next
  case (Cons u units)
  obtain p es where u: "u = (p, es)" by (cases u)
  show ?case unfolding u using Cons.IH by simp
qed

lemma filter_unit_events:
  assumes "\<And>p es. \<not> P (EvProcess p es loc True)" and "\<And>p. \<not> P (EvUpdateProgress loc p)"
  shows "filter P (unit_events loc units) = []"
proof (induction units)
  case Nil
  show ?case by simp
next
  case (Cons u units)
  obtain p es where u: "u = (p, es)" by (cases u)
  show ?case unfolding u using Cons.IH assms by simp
qed

lemma filter_unit_unit_events: "filter is_unit_event (unit_events loc units) = unit_events loc units"
proof (induction units)
  case Nil
  show ?case by simp
next
  case (Cons u units)
  obtain p es where u: "u = (p, es)" by (cases u)
  show ?case unfolding u using Cons.IH by simp
qed

text \<open>The unit at which a loop stops: its call raised, or it returned and the record failed.\<close>

lemma failed_unit_events_cases:
  obtains (raised) "fst (process_patient_and_encounters svc p es loc s) = Raises"
      "failed_unit_events svc loc p es s = [EvProcess p es loc False]"
  | (unrecorded) "fst (process_patient_and_encounters svc p es loc s) = Returns ()"
      "failed_unit_events svc loc p es s = [EvProcess p es loc True, EvUpdateFailed loc p]"
  by (cases "fst (process_patient_and_encounters svc p es loc s)")
     (auto simp: failed_unit_events_def)

lemma failed_unit_events_sat:
  assumes "\<And>b. Q (EvProcess p es loc b)" and "Q (EvUpdateFailed loc p)"
  shows "list_all Q (failed_unit_events svc loc p es s)"
  using assms by (simp add: failed_unit_events_def)

lemma filter_failed_unit_events:
  assumes "\<And>b. \<not> P (EvProcess p es loc b)" and "\<not> P (EvUpdateFailed loc p)"
  shows "filter P (failed_unit_events svc loc p es s) = []"
  using assms by (simp add: failed_unit_events_def)


lemma failed_unit_events_raised:
  assumes "EvProcess p es loc False \<in> set (failed_unit_events svc loc' p' es' s)"
  shows "p' = p" and "es' = es" and "loc' = loc"
    and "failed_unit_events svc loc' p' es' s = [EvProcess p es loc False]"
  using assms by (auto simp: failed_unit_events_def split: if_splits)

lemma units_effect_append:
  "units_effect svc loc (xs @ ys) s = units_effect svc loc ys (units_effect svc loc xs s)"
  by (induction svc loc xs s rule: units_effect.induct) simp_all

lemma units_return_append:
  "units_return svc loc (xs @ ys) s \<longleftrightarrow>
     units_return svc loc xs s \<and> units_return svc loc ys (units_effect svc loc xs s)"
  by (induction svc loc xs s rule: units_return.induct) simp_all


lemma process_location_trace:
  assumes "process_location loc svc t w = (r, w')"
  shows "trace w' = trace w @ new_events w w'"
  using assms by (cases rule: process_location_cases) (simp_all add: new_events_def)

text \<open>A run that fails ends the batch: the driver takes up no later location.\<close>

lemma process_locations_Cons:
  "process_locations (loc # rest) svc w0 =
     (case process_location loc svc t (log (EvNewTracker ''logs/progress.json'') w0) of
        (Inl e, w') \<Rightarrow> (Inl e, w')
      | (Inr u, w') \<Rightarrow> process_locations rest svc w')"
  by (simp add: bind_def new_ProgressTracker_def ret_def
        process_location_ignores_tracker [of loc svc "\<lparr>progress_file = ''logs/progress.json''\<rparr>" t])

lemma batch_stops:
  assumes "process_location loc svc t w = (Inl e, w')"
      and "w = log (EvNewTracker ''logs/progress.json'') w0"
  shows "process_locations (loc # rest) svc w0 = (Inl e, w')"
proof -
  from assms have "process_location loc svc t (log (EvNewTracker ''logs/progress.json'') w0) = (Inl e, w')"
    by simp
  then show ?thesis by (subst process_locations_Cons [of loc rest svc w0 t]) simp
qed

lemma batch_stops_all:
  assumes "process_location loc svc t w = (Inl e, w')"
  shows "\<forall>w0 rest. w = log (EvNewTracker ''logs/progress.json'') w0 \<longrightarrow>
                   process_locations (loc # rest) svc w0 = (Inl e, w')"
proof (intro allI impI)
  fix w0 :: "'a world" and rest
  assume "w = log (EvNewTracker ''logs/progress.json'') w0"
  with assms show "process_locations (loc # rest) svc w0 = (Inl e, w')"
    by (rule batch_stops)
qed


lemma none_in_unlinks:
  assumes "list_all is_unlink us" and "\<And>n b. \<not> P (EvUnlink n b)"
  shows "list_all (\<lambda>e. \<not> P e) us"
  using assms(1)
proof (induction us)
  case Nil
  show ?case by simp
next
  case (Cons e us)
  then obtain n b where "e = EvUnlink n b" by (cases e) auto
  with Cons assms(2) show ?case by simp
qed

lemma unlinks_sat:
  assumes "list_all is_unlink us" and "\<And>n b. Q (EvUnlink n b)"
  shows "list_all Q us"
  using assms(1)
proof (induction us)
  case Nil
  show ?case by simp
next
  case (Cons e us)
  then obtain n b where "e = EvUnlink n b" by (cases e) auto
  with Cons assms(2) show ?case by simp
qed

lemma batch_continues:
  assumes "process_location loc svc t (log (EvNewTracker ''logs/progress.json'') w0) = (Inr u, w')"
  shows "process_locations (loc # rest) svc w0 = process_locations rest svc w'"
  using assms by (subst process_locations_Cons [of loc rest svc w0 t]) simp

declare process_locations.simps(2) [simp del]


section \<open>Runs of the concrete service\<close>

lemmas run_defs =
  process_location_def clear_patients_to_sync_folder_def os_listdir_def os_path_isfile_def
  os_unlink_def try_except_def bind_def ret_def raise_def sys_exit_def log_def
  new_ProgressTracker_def get_progress_def reset_progress_def update_progress_def
  load_document_def store_document_def dict_of_def connect_def fetch_def process_patient_def
  process_patient_files_def call_def fetch_and_process_def truncate_file_def json_dump_def
  json_load_def new_events_def Let_def example_service_def example_world_def example_units_def

lemma example_run_L1:
  "fst (process_location ''L1'' example_service t example_world) = Inr ()"
  "new_events example_world (snd (process_location ''L1'' example_service t example_world)) =
     [EvBegin ''L1'', EvClear, EvUnlink ''a.json'' True, EvUnlink ''b.json'' True,
      EvNewTracker ''logs/progress.json'', EvGetProgress ''L1'' (Some [''P1'']),
      EvConnect True, EvFetch ''L1'' [] (Returns (Some example_units)),
      EvTruncate ''patients_to_sync.json'', EvTruncate ''encounters_to_process.json'',
      EvJsonDump ''encounters_to_process.json'' example_units,
      EvJsonLoad ''encounters_to_process.json'' (Some example_units),
      EvProcess ''P1'' [''E1'', ''E2''] ''L1'' True, EvUpdateProgress ''L1'' ''P1'',
      EvProcess ''P2'' [''E3''] ''L1'' True, EvUpdateProgress ''L1'' ''P2'',
      EvUpload True]"
  by (simp_all add: run_defs)

lemma example_run_L2:
  "fst (process_location ''L2'' example_service t example_world) = Inl (SystemExit 1)"
  "new_events example_world (snd (process_location ''L2'' example_service t example_world)) =
     [EvBegin ''L2'', EvClear, EvUnlink ''a.json'' True, EvUnlink ''b.json'' True,
      EvNewTracker ''logs/progress.json'', EvGetProgress ''L2'' None, EvResetProgress ''L2'',
      EvConnect True, EvFetch ''L2'' [] (Returns (Some example_units)),
      EvTruncate ''patients_to_sync.json'', EvTruncate ''encounters_to_process.json'',
      EvJsonDump ''encounters_to_process.json'' example_units,
      EvJsonLoad ''encounters_to_process.json'' (Some example_units),
      EvProcess ''P1'' [''E1'', ''E2''] ''L2'' True, EvUpdateProgress ''L2'' ''P1'',
      EvProcess ''P2'' [''E3''] ''L2'' False]"
  by (simp_all add: run_defs)

lemma example_run_L4:
  "fst (process_location ''L4'' example_service t example_world) = Inl (SystemExit 1)"
  "new_events example_world (snd (process_location ''L4'' example_service t example_world)) =
     [EvBegin ''L4'', EvClear, EvUnlink ''a.json'' True, EvUnlink ''b.json'' True,
      EvNewTracker ''logs/progress.json'', EvGetProgress ''L4'' None, EvResetProgress ''L4'',
      EvConnect True, EvFetch ''L4'' [] (Returns None)]"
  by (simp_all add: run_defs)

lemma example_run_L3:
  "fst (process_location ''L3'' example_service t example_world) = Inl (SystemExit 1)"
  "new_events example_world (snd (process_location ''L3'' example_service t example_world)) =
     [EvBegin ''L3'', EvClear, EvUnlink ''a.json'' True, EvUnlink ''b.json'' True,
      EvNewTracker ''logs/progress.json'', EvGetProgress ''L3'' None, EvResetProgress ''L3'',
      EvConnect True, EvFetch ''L3'' [] (Returns (Some example_units)),
      EvTruncate ''patients_to_sync.json'', EvTruncate ''encounters_to_process.json'',
      EvJsonDump ''encounters_to_process.json'' example_units,
      EvJsonLoad ''encounters_to_process.json'' (Some example_units),
      EvProcess ''P1'' [''E1'', ''E2''] ''L3'' False]"
  "ext (snd (process_location ''L3'' example_service t example_world)) = 2"
  "completed (snd (process_location ''L3'' example_service t example_world)) ''L3'' = []"
  by (simp_all add: run_defs completed_def)

text \<open>The collaborators of the concrete service at the loop of location \<open>L1\<close>.\<close>

lemma example_loop_L1:
  "at_loop example_service ''L1'' example_world = (Some [(''sub'', Dir [(''x'', File False)])], 0)"
  "units_return example_service ''L1'' example_units (Some [(''sub'', Dir [(''x'', File False)])], 0)"
  "units_effect example_service ''L1'' example_units (Some [(''sub'', Dir [(''x'', File False)])], 0) =
     (Some [(''sub'', Dir [(''x'', File False)]), (''P1'', File False), (''P2'', File False)], 3)"
  "dhis2_connector_process_patient_files example_service
     (Some [(''sub'', Dir [(''x'', File False)]), (''P1'', File False), (''P2'', File False)], 3) =
     (Returns (),
      Some [(''sub'', Dir [(''x'', File False)]), (''P1'', File False), (''P2'', File False)], 103)"
  by (simp_all add: at_loop_def at_fetch_def at_connect_def outside_def run_defs)


section \<open>The batch\<close>

lemma unit_events_sat:
  assumes "\<And>p es. Q (EvProcess p es loc True)" and "\<And>p. Q (EvUpdateProgress loc p)"
  shows "list_all Q (unit_events loc units)"
proof (induction units)
  case Nil
  show ?case by simp
next
  case (Cons u units)
  obtain p es where u: "u = (p, es)" by (cases u)
  show ?case unfolding u using Cons.IH assms by simp
qed

lemma process_location_completed:
  assumes "process_location loc svc t w = (r, w')"
  shows "\<exists>new. completed w' l = completed w l @ new"
  using assms
proof (cases rule: process_location_cases)
  case (clear_failed us)
  then have "completed w' l = completed w l @ []" by (simp add: completed_def load_document_def)
  then show ?thesis by (rule exI)
next
  case (connect_failed us)
  then have "completed w' l = completed w l @ []" by simp
  then show ?thesis by (rule exI)
next
  case (fetch_raised us)
  then have "completed w' l = completed w l @ []" by simp
  then show ?thesis by (rule exI)
next
  case (fetch_none us)
  then have "completed w' l = completed w l @ []" by simp
  then show ?thesis by (rule exI)
next
  case (unit_failed us m pre p es post)
  from unit_failed(5) have "completed w' l = completed w l @ (if l = loc then map fst pre else [])"
    by (rule spec)
  then show ?thesis by (rule exI)
next
  case (uploaded us m u)
  from uploaded(4) have "completed w' l = completed w l @ (if l = loc then map fst (dict_of m) else [])"
    by (rule spec)
  then show ?thesis by (rule exI)
qed

lemma process_locations_completed:
  "\<exists>new. completed (snd (process_locations roster svc w)) l = completed w l @ new"
proof (induction roster arbitrary: w)
  case Nil
  have "completed (snd (process_locations [] svc w)) l = completed w l @ []" by (simp add: ret_def)
  then show ?case by (rule exI)
next
  case (Cons loc rest)
  let ?t = "\<lparr>progress_file = ''logs/progress.json''\<rparr>"
  let ?w1 = "log (EvNewTracker ''logs/progress.json'') w"
  obtain r1 w2 where run: "process_location loc svc ?t ?w1 = (r1, w2)" by fastforce
  from process_location_completed [OF run] obtain new1
    where c1: "completed w2 l = completed w l @ new1" by auto
  show ?case
  proof (cases r1)
    case (Inl e)
    with run have "process_locations (loc # rest) svc w = (Inl e, w2)"
      by (simp only: batch_stops [OF _ refl])
    with c1 have "completed (snd (process_locations (loc # rest) svc w)) l = completed w l @ new1"
      by simp
    then show ?thesis by (rule exI)
  next
    case (Inr u)
    with run have "process_locations (loc # rest) svc w = process_locations rest svc w2"
      by (simp only: batch_continues)
    moreover from Cons.IH [of w2] obtain new2
      where "completed (snd (process_locations rest svc w2)) l = completed w2 l @ new2" by auto
    ultimately have "completed (snd (process_locations (loc # rest) svc w)) l =
                       completed w l @ (new1 @ new2)"
      using c1 by simp
    then show ?thesis by (rule exI)
  qed
qed

lemma main_completed:
  "\<exists>new. completed (snd (main svc w)) l = completed w l @ new"
proof -
  have same: "completed w l = completed w l @ []" by simp
  show ?thesis
  proof (cases "text_files w ''locations.txt''")
    case None
    then have "snd (main svc w) = w" by (simp add: main_def bind_def read_location_ids_eq)
    with same show ?thesis by (intro exI [of _ "[]"]) simp
  next
    case (Some content)
    show ?thesis
    proof (cases "roster_of_text content = []")
      case True
      with Some have "snd (main svc w) = w" by (simp add: main_def bind_def read_location_ids_eq)
      with same show ?thesis by (intro exI [of _ "[]"]) simp
    next
      case False
      with Some have "main svc w = process_locations (roster_of_text content) svc w"
        by (simp add: main_def bind_def read_location_ids_eq)
      then show ?thesis using process_locations_completed [of "roster_of_text content" svc w l]
        by simp
    qed
  qed
qed

lemma run_events_by_kind:
  assumes run: "process_location loc svc t w = (r, w')"
  shows "filter is_begin (new_events w w') = [EvBegin loc]"
    and "list_all (\<lambda>e. is_new_tracker e \<longrightarrow> e = EvNewTracker ''logs/progress.json'') (new_events w w')"
    and "r = Inr () \<longrightarrow>
           filter is_begin_or_upload (new_events w w') = [EvBegin loc, EvUpload True] \<and>
           filter is_new_tracker (new_events w w') = [EvNewTracker ''logs/progress.json'']"
proof -
  note defs = tracker_events_def snapshot_events_def
  let ?Q = "\<lambda>e. is_new_tracker e \<longrightarrow> e = EvNewTracker ''logs/progress.json''"
  have "filter is_begin (new_events w w') = [EvBegin loc] \<and> list_all ?Q (new_events w w') \<and>
        (r = Inr () \<longrightarrow>
           filter is_begin_or_upload (new_events w w') = [EvBegin loc, EvUpload True] \<and>
           filter is_new_tracker (new_events w w') = [EvNewTracker ''logs/progress.json''])"
    using run
  proof (cases rule: process_location_cases)
    case (clear_failed us)
    note e = new_events_eq [OF clear_failed(1)]
    have fb: "filter is_begin us = []" using clear_failed(2) by (rule filter_unlinks) (auto elim: is_unlink.elims)
    have q: "list_all ?Q us" using clear_failed(2) by (rule unlinks_sat) simp
    from clear_failed(3) have "r \<noteq> Inr ()" by auto
    then show ?thesis unfolding e using fb q by simp
  next
    case (connect_failed us)
    note e = new_events_eq [OF connect_failed(1)]
    from connect_failed(2) have u: "list_all is_unlink us" by (rule unlink_ok_is_unlink)
    have fb: "filter is_begin us = []" using u by (rule filter_unlinks) (auto elim: is_unlink.elims)
    have q: "list_all ?Q us" using u by (rule unlinks_sat) simp
    show ?thesis unfolding e using fb q connect_failed(3) by (simp add: defs)
  next
    case (fetch_raised us)
    note e = new_events_eq [OF fetch_raised(1)]
    from fetch_raised(2) have u: "list_all is_unlink us" by (rule unlink_ok_is_unlink)
    have fb: "filter is_begin us = []" using u by (rule filter_unlinks) (auto elim: is_unlink.elims)
    have q: "list_all ?Q us" using u by (rule unlinks_sat) simp
    show ?thesis unfolding e using fb q fetch_raised(3) by (simp add: defs)
  next
    case (fetch_none us)
    note e = new_events_eq [OF fetch_none(1)]
    from fetch_none(2) have u: "list_all is_unlink us" by (rule unlink_ok_is_unlink)
    have fb: "filter is_begin us = []" using u by (rule filter_unlinks) (auto elim: is_unlink.elims)
    have q: "list_all ?Q us" using u by (rule unlinks_sat) simp
    show ?thesis unfolding e using fb q fetch_none(3) by (simp add: defs)
  next
    case (unit_failed us m pre p es post)
    note e = new_events_eq [OF unit_failed(1)]
    from unit_failed(2) have u: "list_all is_unlink us" by (rule unlink_ok_is_unlink)
    have fb: "filter is_begin us = []" using u by (rule filter_unlinks) (auto elim: is_unlink.elims)
    have q: "list_all ?Q us" using u by (rule unlinks_sat) simp
    have qu: "list_all ?Q (unit_events loc pre)" by (rule unit_events_sat) simp_all
    show ?thesis unfolding e using fb q qu unit_failed(4)
      by (simp add: defs filter_unit_events failed_unit_events_sat filter_failed_unit_events)
  next
    case (uploaded us m u)
    note e = new_events_eq [OF uploaded(1)]
    from uploaded(2) have ul: "list_all is_unlink us" by (rule unlink_ok_is_unlink)
    have fb: "filter is_begin us = []" using ul by (rule filter_unlinks) (auto elim: is_unlink.elims)
    have fbu: "filter is_begin_or_upload us = []"
      using ul by (rule filter_unlinks) (auto elim: is_unlink.elims)
    have fnt: "filter is_new_tracker us = []"
      using ul by (rule filter_unlinks) (auto elim: is_unlink.elims)
    have q: "list_all ?Q us" using ul by (rule unlinks_sat) simp
    have qu: "list_all ?Q (unit_events loc (dict_of m))" by (rule unit_events_sat) simp_all
    from uploaded(3) have ru: "r = Inr () \<longrightarrow> u" by (cases u) simp_all
    show ?thesis unfolding e using fb fbu fnt q qu ru by (simp add: defs filter_unit_events)
  qed
  then show "filter is_begin (new_events w w') = [EvBegin loc]"
    and "list_all ?Q (new_events w w')"
    and "r = Inr () \<longrightarrow>
           filter is_begin_or_upload (new_events w w') = [EvBegin loc, EvUpload True] \<and>
           filter is_new_tracker (new_events w w') = [EvNewTracker ''logs/progress.json'']"
    by blast+
qed

lemma process_locations_events:
  assumes "process_locations roster svc w = (r, w')"
  shows "\<exists>evs n. trace w' = trace w @ evs \<and> n \<le> length roster \<and>
           filter is_begin evs = map EvBegin (take n roster) \<and>
           (r = Inr () \<longrightarrow>
              n = length roster \<and>
              filter is_begin_or_upload evs = concat (map (\<lambda>l. [EvBegin l, EvUpload True]) roster) \<and>
              filter is_new_tracker evs =
                replicate (2 * length roster) (EvNewTracker ''logs/progress.json'')) \<and>
           list_all (\<lambda>e. is_new_tracker e \<longrightarrow> e = EvNewTracker ''logs/progress.json'') evs"
  using assms
proof (induction roster arbitrary: w)
  case Nil
  then have "r = Inr ()" "w' = w" by (simp_all add: ret_def)
  then show ?case by (intro exI [of _ "[]"] exI [of _ 0]) simp
next
  case (Cons loc rest)
  let ?P = "''logs/progress.json''"
  let ?Q = "\<lambda>e. is_new_tracker e \<longrightarrow> e = EvNewTracker ?P"
  let ?t = "\<lparr>progress_file = ?P\<rparr>"
  let ?w1 = "log (EvNewTracker ?P) w"
  obtain r1 w2 where run: "process_location loc svc ?t ?w1 = (r1, w2)" by fastforce
  define X where "X = new_events ?w1 w2"
  from process_location_trace [OF run] have t2: "trace w2 = trace w @ EvNewTracker ?P # X"
    by (simp add: X_def)
  note k = run_events_by_kind [OF run, folded X_def]
  show ?case
  proof (cases r1)
    case (Inl e)
    with run have "process_locations (loc # rest) svc w = (Inl e, w2)"
      by (simp only: batch_stops [OF _ refl])
    with Cons.prems have "r = Inl e" "w' = w2" by simp_all
    with t2 k(1) k(2) have "trace w' = trace w @ (EvNewTracker ?P # X) \<and> 1 \<le> length (loc # rest) \<and>
           filter is_begin (EvNewTracker ?P # X) = map EvBegin (take 1 (loc # rest)) \<and>
           (r = Inr () \<longrightarrow>
              1 = length (loc # rest) \<and>
              filter is_begin_or_upload (EvNewTracker ?P # X) =
                concat (map (\<lambda>l. [EvBegin l, EvUpload True]) (loc # rest)) \<and>
              filter is_new_tracker (EvNewTracker ?P # X) =
                replicate (2 * length (loc # rest)) (EvNewTracker ?P)) \<and>
           list_all ?Q (EvNewTracker ?P # X)"
      by simp
    then show ?thesis by (intro exI)
  next
    case (Inr u)
    with run have "process_locations (loc # rest) svc w = process_locations rest svc w2"
      by (simp only: batch_continues)
    with Cons.prems have rest: "process_locations rest svc w2 = (r, w')" by simp
    from Cons.IH [OF rest] obtain evs n where ih:
      "trace w' = trace w2 @ evs" "n \<le> length rest"
      "filter is_begin evs = map EvBegin (take n rest)"
      "r = Inr () \<longrightarrow>
              n = length rest \<and>
              filter is_begin_or_upload evs = concat (map (\<lambda>l. [EvBegin l, EvUpload True]) rest) \<and>
              filter is_new_tracker evs = replicate (2 * length rest) (EvNewTracker ?P)"
      "list_all ?Q evs"
      by blast
    from Inr k(3) have ok: "filter is_begin_or_upload X = [EvBegin loc, EvUpload True]"
      "filter is_new_tracker X = [EvNewTracker ?P]" by simp_all
    from t2 ih k(1) k(2) ok
    have "trace w' = trace w @ (EvNewTracker ?P # X @ evs) \<and> Suc n \<le> length (loc # rest) \<and>
           filter is_begin (EvNewTracker ?P # X @ evs) = map EvBegin (take (Suc n) (loc # rest)) \<and>
           (r = Inr () \<longrightarrow>
              Suc n = length (loc # rest) \<and>
              filter is_begin_or_upload (EvNewTracker ?P # X @ evs) =
                concat (map (\<lambda>l. [EvBegin l, EvUpload True]) (loc # rest)) \<and>
              filter is_new_tracker (EvNewTracker ?P # X @ evs) =
                replicate (2 * length (loc # rest)) (EvNewTracker ?P)) \<and>
           list_all ?Q (EvNewTracker ?P # X @ evs)"
      by simp
    then show ?thesis by (intro exI)
  qed
qed

text \<open>
  A batch that does not return stopped at a location of its roster: the runs of the
  locations before it returned, and its run ended as the batch does.
\<close>

lemma process_locations_stop:
  assumes "process_locations roster svc w = (r, w')" and "r \<noteq> Inr ()"
  shows "\<exists>done loc rest wk.
           roster = done @ loc # rest \<and>
           process_locations done svc w = (Inr (), wk) \<and>
           process_location loc svc \<lparr>progress_file = ''logs/progress.json''\<rparr>
             (log (EvNewTracker ''logs/progress.json'') wk) = (r, w')"
  using assms
proof (induction roster arbitrary: w)
  case Nil
  then show ?case by (simp add: ret_def)
next
  case (Cons loc rest)
  let ?P = "''logs/progress.json''"
  let ?t = "\<lparr>progress_file = ?P\<rparr>"
  obtain r1 w2 where run: "process_location loc svc ?t (log (EvNewTracker ?P) w) = (r1, w2)"
    by fastforce
  show ?case
  proof (cases r1)
    case (Inl e)
    with run have "process_locations (loc # rest) svc w = (Inl e, w2)"
      by (simp only: batch_stops [OF _ refl])
    with Cons.prems(1) have "r = Inl e" "w' = w2" by simp_all
    with run Inl have "loc # rest = [] @ loc # rest \<and>
           process_locations [] svc w = (Inr (), w) \<and>
           process_location loc svc ?t (log (EvNewTracker ?P) w) = (r, w')"
      by (simp add: ret_def)
    then show ?thesis by (intro exI)
  next
    case (Inr u)
    with run have step: "\<And>more. process_locations (loc # more) svc w = process_locations more svc w2"
      by (simp only: batch_continues)
    with Cons.prems(1) have "process_locations rest svc w2 = (r, w')" by simp
    from Cons.IH [OF this Cons.prems(2)] obtain done' loc' rest' wk where ih:
      "rest = done' @ loc' # rest'" "process_locations done' svc w2 = (Inr (), wk)"
      "process_location loc' svc ?t (log (EvNewTracker ?P) wk) = (r, w')"
      by blast
    from ih(1) have a: "loc # rest = (loc # done') @ loc' # rest'" by simp
    from ih(2) step have b: "process_locations (loc # done') svc w = (Inr (), wk)" by simp
    from a b ih(3) show ?thesis by (intro exI conjI)
  qed
qed


section \<open>The claims\<close>

text \<open>
  C9. The list that \<^verbatim>\<open>read_location_ids\<close> returns is the roster as the specification
  words it: the lines of the file with the surrounding whitespace trimmed and the blank
  lines removed, in the order of the file, each identifier non-empty and with no
  whitespace at either end. When the file is missing, or empty after this filtering, the
  function exits with status 1, and \<^verbatim>\<open>main\<close> then ends with that status in the world
  it started in: no location is processed.
\<close>

theorem roster_parsed_as_specified:
  "read_location_ids path w =
     (case text_files w path of
        None \<Rightarrow> (Inl (SystemExit 1), w)
      | Some txt \<Rightarrow>
          if roster_of_text txt = [] then (Inl (SystemExit 1), w)
          else (Inr (roster_of_text txt), w))
   \<and> main sync_service w =
     (case text_files w ''locations.txt'' of
        None \<Rightarrow> (Inl (SystemExit 1), w)
      | Some txt \<Rightarrow>
          if roster_of_text txt = [] then (Inl (SystemExit 1), w)
          else process_locations (roster_of_text txt) sync_service w)
   \<and> exit_status (Inl (SystemExit 1) :: pyexn + unit) \<noteq> 0
   \<and> list_all (\<lambda>location_id. location_id \<noteq> [] \<and> \<not> is_space (hd location_id)
                  \<and> \<not> is_space (last location_id)) (roster_of_text txt)"
proof -
  have "list_all (\<lambda>l. l \<noteq> [] \<and> \<not> is_space (hd l) \<and> \<not> is_space (last l)) (roster_of_text txt)"
    by (auto simp: roster_of_text_def list_all_iff trim_eq_Nil trim_ends)
  then show ?thesis
    by (simp add: read_location_ids_eq main_def bind_def exit_status_def split: option.splits)
qed

theorem roster_parsed_as_specified_witness:
  "read_location_ids ''locations.txt'' example_world = (Inr [''L1'', ''L2''], example_world)
   \<and> main example_service (example_world\<lparr>text_files := (\<lambda>_. None)\<rparr>)
       = (Inl (SystemExit 1), example_world\<lparr>text_files := (\<lambda>_. None)\<rparr>)"
proof -
  have r: "roster_of_text '' L1 \<newline>\<newline>  L2'' = [''L1'', ''L2'']"
    by (simp add: roster_of_text_def file_lines_def blank_def trim_def is_space_def)
  have t: "text_files example_world ''locations.txt'' = Some '' L1 \<newline>\<newline>  L2''"
    by (simp add: example_world_def)
  show ?thesis
    using roster_parsed_as_specified [of "''locations.txt''" example_world]
      roster_parsed_as_specified [of _ "example_world\<lparr>text_files := (\<lambda>_. None)\<rparr>" example_service]
    by (simp add: r t)
qed

text \<open>
  C10. The third parameter of \<^verbatim>\<open>process_location\<close> has no influence: line 49 binds its
  name to a new tracker for \<^verbatim>\<open>logs/progress.json\<close> before the first use, so two calls
  that differ only in that argument return the same result and leave the same world
  (the same calls, files, progress and exit status).
\<close>

theorem tracker_argument_is_ignored:
  "process_location location_id sync_service t1 w = process_location location_id sync_service t2 w"
  by (simp add: process_location_def)


text \<open>
  C1. When the per-unit collaborator raises on a patient of the snapshot, that call is
  the last event of the run: the units before it, in the order of the snapshot read
  back, were each processed and recorded, no later unit is processed and nothing is
  uploaded. The patients recorded before the failure are in the progress document that
  the run leaves, after those it held before. The run exits with status 1, and the batch
  driver ends with the same result in the same world: no later location is attempted.
\<close>

theorem unit_failure_aborts_run:
  assumes run: "process_location loc svc t w = (r, w')"
      and fail: "EvProcess p es loc False \<in> set (new_events w w')"
  shows "(\<exists>m pre post.
            EvFetch loc [] (Returns (Some m)) \<in> set (new_events w w') \<and>
            dict_of m = pre @ (p, es) # post \<and>
            filter is_unit_event (new_events w w') = unit_events loc pre @ [EvProcess p es loc False] \<and>
            last (new_events w w') = EvProcess p es loc False \<and>
            completed w' loc = completed w loc @ map fst pre \<and>
            list_all (recorded w' loc) (map fst pre)) \<and>
         r = Inl (SystemExit 1) \<and> exit_status r \<noteq> 0 \<and>
         (\<forall>w0 rest. w = log (EvNewTracker ''logs/progress.json'') w0 \<longrightarrow>
                    process_locations (loc # rest) svc w0 = (r, w'))"
proof -
  note defs = tracker_events_def snapshot_events_def
  from run show ?thesis
  proof (cases rule: process_location_cases)
    case (clear_failed us)
    from clear_failed(1) have "new_events w w' = EvBegin loc # EvClear # us" by (rule new_events_eq)
    with fail clear_failed(2) have False by (auto dest: in_unlinks)
    then show ?thesis ..
  next
    case (connect_failed us)
    note e = new_events_eq [OF connect_failed(1)]
    from connect_failed(2) have "list_all is_unlink us" by (rule unlink_ok_is_unlink)
    with fail e have False by (auto simp: defs dest: in_unlinks)
    then show ?thesis ..
  next
    case (fetch_raised us)
    note e = new_events_eq [OF fetch_raised(1)]
    from fetch_raised(2) have "list_all is_unlink us" by (rule unlink_ok_is_unlink)
    with fail e have False by (auto simp: defs dest: in_unlinks)
    then show ?thesis ..
  next
    case (fetch_none us)
    note e = new_events_eq [OF fetch_none(1)]
    from fetch_none(2) have "list_all is_unlink us" by (rule unlink_ok_is_unlink)
    with fail e have False by (auto simp: defs dest: in_unlinks)
    then show ?thesis ..
  next
    case (uploaded us m u)
    note e = new_events_eq [OF uploaded(1)]
    from uploaded(2) have "list_all is_unlink us" by (rule unlink_ok_is_unlink)
    with fail e have False by (auto simp: defs set_unit_events dest: in_unlinks)
    then show ?thesis ..
  next
    case (unit_failed us m pre p' es' post)
    let ?s = "units_effect svc loc pre (at_loop svc loc w)"
    note e = new_events_eq [OF unit_failed(1)]
    from unit_failed(2) have u: "list_all is_unlink us" by (rule unlink_ok_is_unlink)
    with fail e have "EvProcess p es loc False \<in> set (failed_unit_events svc loc p' es' ?s)"
      by (auto simp: defs set_unit_events dest: in_unlinks)
    note same = failed_unit_events_raised(1,2) [OF this] and fe = failed_unit_events_raised(4) [OF this]
    have fu: "filter is_unit_event us = []" using u by (rule filter_unlinks) (auto elim: is_unlink.elims)
    have f: "filter is_unit_event (new_events w w') = unit_events loc pre @ [EvProcess p es loc False]"
      unfolding e fe by (simp add: defs fu filter_unit_unit_events)
    have l: "last (new_events w w') = EvProcess p es loc False"
      unfolding e fe by simp
    have m: "EvFetch loc [] (Returns (Some m)) \<in> set (new_events w w')"
      unfolding e by simp
    from unit_failed(5) have c: "completed w' loc = completed w loc @ map fst pre" by simp
    then have rec: "list_all (recorded w' loc) (map fst pre)"
      by (simp add: recorded_def list_all_iff)
    from unit_failed(3) same have d: "dict_of m = pre @ (p, es) # post" by simp
    have ex: "\<exists>m pre post.
            EvFetch loc [] (Returns (Some m)) \<in> set (new_events w w') \<and>
            dict_of m = pre @ (p, es) # post \<and>
            filter is_unit_event (new_events w w') = unit_events loc pre @ [EvProcess p es loc False] \<and>
            last (new_events w w') = EvProcess p es loc False \<and>
            completed w' loc = completed w loc @ map fst pre \<and>
            list_all (recorded w' loc) (map fst pre)"
      using m d f l c rec by (intro exI conjI)
    have r: "r = Inl (SystemExit 1)" by (rule unit_failed(4))
    have st: "exit_status r \<noteq> 0" by (simp add: r exit_status_def)
    have b: "\<forall>w0 rest. w = log (EvNewTracker ''logs/progress.json'') w0 \<longrightarrow>
                    process_locations (loc # rest) svc w0 = (r, w')"
      using run unfolding r by (rule batch_stops_all)
    from ex r st b show ?thesis by (intro conjI)
  qed
qed

theorem unit_failure_aborts_run_witness:
  "EvProcess ''P2'' [''E3''] ''L2'' False
     \<in> set (new_events example_world
               (snd (process_location ''L2'' example_service \<lparr>progress_file = ''p.json''\<rparr>
                       example_world))) \<and>
   fst (process_location ''L2'' example_service \<lparr>progress_file = ''p.json''\<rparr> example_world)
     = Inl (SystemExit 1) \<and>
   exit_status (fst (process_location ''L2'' example_service \<lparr>progress_file = ''p.json''\<rparr>
                       example_world)) \<noteq> 0"
proof -
  let ?run = "process_location ''L2'' example_service \<lparr>progress_file = ''p.json''\<rparr> example_world"
  have run: "?run = (fst ?run, snd ?run)" by simp
  have fail: "EvProcess ''P2'' [''E3''] ''L2'' False \<in> set (new_events example_world (snd ?run))"
    by (simp add: example_run_L2)
  note th = unit_failure_aborts_run [OF run fail]
  from th have r: "fst ?run = Inl (SystemExit 1)" by (elim conjE)
  from th have s: "exit_status (fst ?run) \<noteq> 0" by (elim conjE)
  from fail r s show ?thesis by (intro conjI)
qed


text \<open>
  C2, as stated, fails: a run that reaches the loop need not call the collaborator for
  every patient of the snapshot. At location \<open>L3\<close> the call for the first patient
  raises: it is the only per-unit event of the run, the second patient of the snapshot
  is never handed to the collaborator (whose state counts the two encounters of the
  first patient only), and nothing is recorded.
\<close>

theorem every_unit_processed_counterexample:
  "EvJsonLoad ''encounters_to_process.json'' (Some example_units)
     \<in> set (new_events example_world
               (snd (process_location ''L3'' example_service \<lparr>progress_file = ''p.json''\<rparr>
                       example_world))) \<and>
   filter is_unit_event
     (new_events example_world
        (snd (process_location ''L3'' example_service \<lparr>progress_file = ''p.json''\<rparr>
                example_world))) =
     [EvProcess ''P1'' [''E1'', ''E2''] ''L3'' False] \<and>
   filter is_unit_event
     (new_events example_world
        (snd (process_location ''L3'' example_service \<lparr>progress_file = ''p.json''\<rparr>
                example_world))) \<noteq>
     unit_events ''L3'' example_units \<and>
   ext (snd (process_location ''L3'' example_service \<lparr>progress_file = ''p.json''\<rparr>
               example_world)) = 2 \<and>
   completed (snd (process_location ''L3'' example_service \<lparr>progress_file = ''p.json''\<rparr>
                     example_world)) ''L3'' = []"
  by (simp add: example_run_L3 unit_events_def example_units_def)

text \<open>
  C2, amended. In a run that reaches the loop (the snapshot was read back as \<open>units\<close>,
  in which each patient occurs once) the loop takes the units in the order of the
  snapshot: it applies the collaborator to the patient, its encounters and the location,
  in the state the calls before left, and when the call returns records the patient
  directly after it. It goes on until a call raises or a record fails, which ends the
  run with status 1 in the state that call left; no per-unit event comes before the
  read, and the patients recorded are appended to what the document held for the
  location, also those it held already. When no call raises and no record fails, the
  loop runs through the entire snapshot, each unit once, and the upload follows, applied
  to the state the last call left.
\<close>

theorem loop_processes_units_in_order:
  assumes run: "process_location loc svc t w = (r, w')"
      and reach: "EvJsonLoad ''encounters_to_process.json'' (Some units) \<in> set (new_events w w')"
  shows "(\<exists>pre post before.
            units = pre @ post \<and>
            new_events w w' =
              before @ EvJsonLoad ''encounters_to_process.json'' (Some units) #
              unit_events loc pre @
              (case post of [] \<Rightarrow> [EvUpload (r = Inr ())]
               | (p, es) # _ \<Rightarrow>
                   failed_unit_events svc loc p es (units_effect svc loc pre (at_loop svc loc w))) \<and>
            list_all (\<lambda>e. \<not> is_unit_event e) before \<and>
            units_return svc loc pre (at_loop svc loc w) \<and>
            completed w' loc = completed w loc @ map fst pre \<and>
            (case post of
               [] \<Rightarrow> outside w' =
                       snd (dhis2_connector_process_patient_files svc
                              (units_effect svc loc units (at_loop svc loc w)))
             | (p, es) # _ \<Rightarrow>
                 r = Inl (SystemExit 1) \<and>
                 outside w' =
                   snd (process_patient_and_encounters svc p es loc
                          (units_effect svc loc pre (at_loop svc loc w))))) \<and>
         (units_return svc loc units (at_loop svc loc w) \<and>
          (\<forall>l p. EvUpdateFailed l p \<notin> set (new_events w w')) \<longrightarrow>
            (\<exists>before.
               new_events w w' =
                 before @ EvJsonLoad ''encounters_to_process.json'' (Some units) #
                 unit_events loc units @ [EvUpload (r = Inr ())] \<and>
               list_all (\<lambda>e. \<not> is_unit_event e) before) \<and>
            completed w' loc = completed w loc @ map fst units \<and>
            outside w' =
              snd (dhis2_connector_process_patient_files svc
                     (units_effect svc loc units (at_loop svc loc w)))) \<and>
         distinct (map fst units)"
proof -
  note defs = tracker_events_def snapshot_events_def
  let ?J = "EvJsonLoad ''encounters_to_process.json'' (Some units)"
  let ?s = "at_loop svc loc w"
  let ?A = "\<lambda>pre post before.
            units = pre @ post \<and>
            new_events w w' =
              before @ ?J # unit_events loc pre @
              (case post of [] \<Rightarrow> [EvUpload (r = Inr ())]
               | (p, es) # _ \<Rightarrow> failed_unit_events svc loc p es (units_effect svc loc pre ?s)) \<and>
            list_all (\<lambda>e. \<not> is_unit_event e) before \<and>
            units_return svc loc pre ?s \<and>
            completed w' loc = completed w loc @ map fst pre \<and>
            (case post of
               [] \<Rightarrow> outside w' =
                       snd (dhis2_connector_process_patient_files svc (units_effect svc loc units ?s))
             | (p, es) # _ \<Rightarrow>
                 r = Inl (SystemExit 1) \<and>
                 outside w' =
                   snd (process_patient_and_encounters svc p es loc (units_effect svc loc pre ?s)))"
  let ?B = "units_return svc loc units ?s \<and>
          (\<forall>l p. EvUpdateFailed l p \<notin> set (new_events w w')) \<longrightarrow>
            (\<exists>before.
               new_events w w' = before @ ?J # unit_events loc units @ [EvUpload (r = Inr ())] \<and>
               list_all (\<lambda>e. \<not> is_unit_event e) before) \<and>
            completed w' loc = completed w loc @ map fst units \<and>
            outside w' =
              snd (dhis2_connector_process_patient_files svc (units_effect svc loc units ?s))"
  from run show ?thesis
  proof (cases rule: process_location_cases)
    case (clear_failed us)
    from clear_failed(1) have "new_events w w' = EvBegin loc # EvClear # us" by (rule new_events_eq)
    with reach clear_failed(2) have False by (auto dest: in_unlinks)
    then show ?thesis ..
  next
    case (connect_failed us)
    note e = new_events_eq [OF connect_failed(1)]
    from connect_failed(2) have "list_all is_unlink us" by (rule unlink_ok_is_unlink)
    with reach e have False by (auto simp: defs dest: in_unlinks)
    then show ?thesis ..
  next
    case (fetch_raised us)
    note e = new_events_eq [OF fetch_raised(1)]
    from fetch_raised(2) have "list_all is_unlink us" by (rule unlink_ok_is_unlink)
    with reach e have False by (auto simp: defs dest: in_unlinks)
    then show ?thesis ..
  next
    case (fetch_none us)
    note e = new_events_eq [OF fetch_none(1)]
    from fetch_none(2) have "list_all is_unlink us" by (rule unlink_ok_is_unlink)
    with reach e have False by (auto simp: defs dest: in_unlinks)
    then show ?thesis ..
  next
    case (unit_failed us m pre p es post)
    note e = new_events_eq [OF unit_failed(1)]
    from unit_failed(2) have u: "list_all is_unlink us" by (rule unlink_ok_is_unlink)
    with reach e have units: "units = dict_of m"
      by (auto simp: defs set_unit_events failed_unit_events_def dest: in_unlinks split: if_splits)
    let ?before = "EvBegin loc # EvClear # us @
       tracker_events loc (map_of (load_document ''logs/progress.json'' w) loc) @
       [EvConnect True, EvFetch loc [] (Returns (Some m)),
        EvTruncate ''patients_to_sync.json'', EvTruncate ''encounters_to_process.json'',
        EvJsonDump ''encounters_to_process.json'' m]"
    have nu: "list_all (\<lambda>e. \<not> is_unit_event e) us" using u by (rule none_in_unlinks) simp
    have b: "list_all (\<lambda>e. \<not> is_unit_event e) ?before" using nu by (simp add: defs)
    from unit_failed(3) have split: "units = pre @ (p, es) # post" by (simp add: units)
    have eq: "new_events w w' =
              ?before @ ?J # unit_events loc pre @
              (case (p, es) # post of [] \<Rightarrow> [EvUpload (r = Inr ())]
               | (p, es) # _ \<Rightarrow> failed_unit_events svc loc p es (units_effect svc loc pre ?s))"
      unfolding e units by (simp add: defs)
    from unit_failed(5) have c: "completed w' loc = completed w loc @ map fst pre" by simp
    have o: "case (p, es) # post of
               [] \<Rightarrow> outside w' =
                       snd (dhis2_connector_process_patient_files svc (units_effect svc loc units ?s))
             | (p, es) # _ \<Rightarrow>
                 r = Inl (SystemExit 1) \<and>
                 outside w' =
                   snd (process_patient_and_encounters svc p es loc (units_effect svc loc pre ?s))"
      using unit_failed(4) unit_failed(9) by simp
    from split eq b unit_failed(8) c o have "?A pre ((p, es) # post) ?before" by (intro conjI)
    then have A: "\<exists>pre post before. ?A pre post before" by (intro exI)
    have B: ?B
    proof (intro impI)
      assume h: "units_return svc loc units ?s \<and> (\<forall>l p. EvUpdateFailed l p \<notin> set (new_events w w'))"
      then have ret: "fst (process_patient_and_encounters svc p es loc (units_effect svc loc pre ?s))
                        = Returns ()"
        unfolding split by (simp add: units_return_append)
      then have "failed_unit_events svc loc p es (units_effect svc loc pre ?s) =
                   [EvProcess p es loc True, EvUpdateFailed loc p]"
        by (simp add: failed_unit_events_def)
      then have "EvUpdateFailed loc p \<in> set (new_events w w')" unfolding e by simp
      with h have False by blast
      then show "(\<exists>before.
               new_events w w' = before @ ?J # unit_events loc units @ [EvUpload (r = Inr ())] \<and>
               list_all (\<lambda>e. \<not> is_unit_event e) before) \<and>
            completed w' loc = completed w loc @ map fst units \<and>
            outside w' =
              snd (dhis2_connector_process_patient_files svc (units_effect svc loc units ?s))" ..
    qed
    have d: "distinct (map fst units)" unfolding units by (rule distinct_dict_of)
    from A B d show ?thesis by (intro conjI)
  next
    case (uploaded us m u)
    note e = new_events_eq [OF uploaded(1)]
    from uploaded(2) have ul: "list_all is_unlink us" by (rule unlink_ok_is_unlink)
    with reach e have units: "units = dict_of m"
      by (auto simp: defs set_unit_events dest: in_unlinks)
    from uploaded(3) have ur: "u = (r = Inr ())" by (cases u) simp_all
    let ?before = "EvBegin loc # EvClear # us @
       tracker_events loc (map_of (load_document ''logs/progress.json'' w) loc) @
       [EvConnect True, EvFetch loc [] (Returns (Some m)),
        EvTruncate ''patients_to_sync.json'', EvTruncate ''encounters_to_process.json'',
        EvJsonDump ''encounters_to_process.json'' m]"
    have nu: "list_all (\<lambda>e. \<not> is_unit_event e) us" using ul by (rule none_in_unlinks) simp
    have b: "list_all (\<lambda>e. \<not> is_unit_event e) ?before" using nu by (simp add: defs)
    have split: "units = units @ []" by simp
    have eq0: "new_events w w' = ?before @ ?J # unit_events loc units @ [EvUpload (r = Inr ())]"
      unfolding e units by (simp add: defs ur)
    then have eq: "new_events w w' =
              ?before @ ?J # unit_events loc units @
              (case [] :: pydict of [] \<Rightarrow> [EvUpload (r = Inr ())]
               | (p, es) # _ \<Rightarrow> failed_unit_events svc loc p es (units_effect svc loc units ?s))"
      by simp
    from uploaded(7) have ret: "units_return svc loc units ?s" by (simp add: units)
    from uploaded(4) have c: "completed w' loc = completed w loc @ map fst units"
      by (simp add: units)
    from uploaded(8) have o0: "outside w' =
        snd (dhis2_connector_process_patient_files svc (units_effect svc loc units ?s))"
      by (simp add: units)
    then have o: "case [] :: pydict of
               [] \<Rightarrow> outside w' =
                       snd (dhis2_connector_process_patient_files svc (units_effect svc loc units ?s))
             | (p, es) # _ \<Rightarrow>
                 r = Inl (SystemExit 1) \<and>
                 outside w' =
                   snd (process_patient_and_encounters svc p es loc (units_effect svc loc units ?s))"
      by simp
    from split eq b ret c o have "?A units [] ?before" by (intro conjI)
    then have A: "\<exists>pre post before. ?A pre post before" by (intro exI)
    from eq0 b have "\<exists>before.
               new_events w w' = before @ ?J # unit_events loc units @ [EvUpload (r = Inr ())] \<and>
               list_all (\<lambda>e. \<not> is_unit_event e) before"
      by (intro exI conjI)
    with c o0 have B: ?B by (intro impI conjI)
    have d: "distinct (map fst units)" unfolding units by (rule distinct_dict_of)
    from A B d show ?thesis by (intro conjI)
  qed
qed

theorem loop_processes_units_in_order_witness:
  "EvJsonLoad ''encounters_to_process.json'' (Some example_units)
     \<in> set (new_events example_world
               (snd (process_location ''L1'' example_service \<lparr>progress_file = ''p.json''\<rparr>
                       example_world))) \<and>
   units_return example_service ''L1'' example_units
     (at_loop example_service ''L1'' example_world) \<and>
   completed example_world ''L1'' = [''P1''] \<and>
   completed (snd (process_location ''L1'' example_service \<lparr>progress_file = ''p.json''\<rparr>
                       example_world)) ''L1'' = [''P1'', ''P1'', ''P2''] \<and>
   outside (snd (process_location ''L1'' example_service \<lparr>progress_file = ''p.json''\<rparr>
                       example_world)) =
     (Some [(''sub'', Dir [(''x'', File False)]), (''P1'', File False), (''P2'', File False)],
      103)"
proof -
  let ?run = "process_location ''L1'' example_service \<lparr>progress_file = ''p.json''\<rparr> example_world"
  have run: "?run = (fst ?run, snd ?run)" by simp
  have reach: "EvJsonLoad ''encounters_to_process.json'' (Some example_units)
                 \<in> set (new_events example_world (snd ?run))"
    by (simp add: example_run_L1)
  have ret: "units_return example_service ''L1'' example_units
               (at_loop example_service ''L1'' example_world)"
    by (simp add: example_loop_L1)
  have norec: "\<forall>l p. EvUpdateFailed l p \<notin> set (new_events example_world (snd ?run))"
    by (simp add: example_run_L1)
  have before: "completed example_world ''L1'' = [''P1'']"
    by (simp add: completed_def load_document_def dict_of_def example_world_def)
  note th = loop_processes_units_in_order [OF run reach]
  from th have "units_return example_service ''L1'' example_units
                  (at_loop example_service ''L1'' example_world) \<and>
          (\<forall>l p. EvUpdateFailed l p \<notin> set (new_events example_world (snd ?run))) \<longrightarrow>
            (\<exists>before.
               new_events example_world (snd ?run) =
                 before @ EvJsonLoad ''encounters_to_process.json'' (Some example_units) #
                 unit_events ''L1'' example_units @ [EvUpload (fst ?run = Inr ())] \<and>
               list_all (\<lambda>e. \<not> is_unit_event e) before) \<and>
            completed (snd ?run) ''L1'' = completed example_world ''L1'' @ map fst example_units \<and>
            outside (snd ?run) =
              snd (dhis2_connector_process_patient_files example_service
                     (units_effect example_service ''L1'' example_units
                        (at_loop example_service ''L1'' example_world)))"
    by (elim conjE)
  with ret norec have
    c: "completed (snd ?run) ''L1'' = completed example_world ''L1'' @ map fst example_units"
    and o: "outside (snd ?run) =
              snd (dhis2_connector_process_patient_files example_service
                     (units_effect example_service ''L1'' example_units
                        (at_loop example_service ''L1'' example_world)))"
    by blast+
  from c before have after: "completed (snd ?run) ''L1'' = [''P1'', ''P1'', ''P2'']"
    by (simp add: example_units_def)
  from o have out: "outside (snd ?run) =
     (Some [(''sub'', Dir [(''x'', File False)]), (''P1'', File False), (''P2'', File False)],
      103)"
    by (simp add: example_loop_L1)
  from reach ret before after out show ?thesis by (intro conjI)
qed





text \<open>
  C4. A run resets the location exactly when \<open>get_progress\<close> returned \<open>None\<close> for it, and
  resets no other location; what \<open>get_progress\<close> returns is the entry of the document
  the run started with. Whatever a run does and however it ends, the list the document
  holds for any location only grows at its end, so a patient once recorded stays
  recorded; the same holds for a whole batch and for \<^verbatim>\<open>main\<close>.
\<close>

theorem progress_is_kept:
  assumes run: "process_location loc svc t w = (r, w')"
  shows "(EvResetProgress loc \<in> set (new_events w w') \<longleftrightarrow>
            EvGetProgress loc None \<in> set (new_events w w')) \<and>
         (\<forall>l. EvResetProgress l \<in> set (new_events w w') \<longrightarrow> l = loc) \<and>
         (\<forall>g. EvGetProgress loc g \<in> set (new_events w w') \<longrightarrow>
              g = map_of (load_document ''logs/progress.json'' w) loc) \<and>
         (\<forall>l. \<exists>new. completed w' l = completed w l @ new) \<and>
         (\<forall>l p. recorded w l p \<longrightarrow> recorded w' l p) \<and>
         (\<forall>l p roster. recorded w l p \<longrightarrow> recorded (snd (process_locations roster svc w)) l p) \<and>
         (\<forall>l p. recorded w l p \<longrightarrow> recorded (snd (main svc w)) l p)"
proof -
  note defs = tracker_events_def snapshot_events_def
  let ?g = "map_of (load_document ''logs/progress.json'' w) loc"
  let ?A = "(EvResetProgress loc \<in> set (new_events w w') \<longleftrightarrow>
            EvGetProgress loc None \<in> set (new_events w w')) \<and>
         (\<forall>l. EvResetProgress l \<in> set (new_events w w') \<longrightarrow> l = loc) \<and>
         (\<forall>g. EvGetProgress loc g \<in> set (new_events w w') \<longrightarrow> g = ?g)"
  have later: ?A
    if e: "new_events w w' = EvBegin loc # EvClear # us @ tracker_events loc ?g @ rest"
    and u: "list_all is_unlink us"
    and rest: "list_all (\<lambda>e. (\<forall>l. e \<noteq> EvResetProgress l) \<and> (\<forall>l g. e \<noteq> EvGetProgress l g)) rest"
    for us rest
  proof -
    have nu: "\<And>l. EvResetProgress l \<notin> set us" "\<And>l g. EvGetProgress l g \<notin> set us"
      using u by (auto dest: in_unlinks)
    have nr: "\<And>l. EvResetProgress l \<notin> set rest" "\<And>l g. EvGetProgress l g \<notin> set rest"
      using rest by (auto simp: list_all_iff)
    show ?thesis unfolding e using nu nr by (auto simp: defs)
  qed
  have A: ?A using run
  proof (cases rule: process_location_cases)
    case (clear_failed us)
    note e = new_events_eq [OF clear_failed(1)]
    have nu: "\<And>l. EvResetProgress l \<notin> set us" "\<And>l g. EvGetProgress l g \<notin> set us"
      using clear_failed(2) by (auto dest: in_unlinks)
    show ?thesis unfolding e using nu by simp
  next
    case (connect_failed us)
    note e = new_events_eq [OF connect_failed(1)]
    from connect_failed(2) have "list_all is_unlink us" by (rule unlink_ok_is_unlink)
    with e show ?thesis by (rule later) simp
  next
    case (fetch_raised us)
    note e = new_events_eq [OF fetch_raised(1)]
    from fetch_raised(2) have "list_all is_unlink us" by (rule unlink_ok_is_unlink)
    with e show ?thesis by (rule later) simp
  next
    case (fetch_none us)
    note e = new_events_eq [OF fetch_none(1)]
    from fetch_none(2) have "list_all is_unlink us" by (rule unlink_ok_is_unlink)
    with e show ?thesis by (rule later) simp
  next
    case (unit_failed us m pre p es post)
    note e = new_events_eq [OF unit_failed(1)]
    from unit_failed(2) have u: "list_all is_unlink us" by (rule unlink_ok_is_unlink)
    have "list_all (\<lambda>e. (\<forall>l. e \<noteq> EvResetProgress l) \<and> (\<forall>l g. e \<noteq> EvGetProgress l g))
            (unit_events loc pre)"
      by (rule unit_events_sat) simp_all
    then have "list_all (\<lambda>e. (\<forall>l. e \<noteq> EvResetProgress l) \<and> (\<forall>l g. e \<noteq> EvGetProgress l g))
            (EvConnect True # EvFetch loc [] (Returns (Some m)) # snapshot_events m @
             unit_events loc pre @
             failed_unit_events svc loc p es (units_effect svc loc pre (at_loop svc loc w)))"
      by (simp add: defs failed_unit_events_sat)
    with e u show ?thesis by (rule later)
  next
    case (uploaded us m u')
    note e = new_events_eq [OF uploaded(1)]
    from uploaded(2) have u: "list_all is_unlink us" by (rule unlink_ok_is_unlink)
    have "list_all (\<lambda>e. (\<forall>l. e \<noteq> EvResetProgress l) \<and> (\<forall>l g. e \<noteq> EvGetProgress l g))
            (unit_events loc (dict_of m))"
      by (rule unit_events_sat) simp_all
    then have "list_all (\<lambda>e. (\<forall>l. e \<noteq> EvResetProgress l) \<and> (\<forall>l g. e \<noteq> EvGetProgress l g))
            (EvConnect True # EvFetch loc [] (Returns (Some m)) # snapshot_events m @
             unit_events loc (dict_of m) @ [EvUpload u'])"
      by (simp add: defs)
    with e u show ?thesis by (rule later)
  qed
  have B: "\<forall>l. \<exists>new. completed w' l = completed w l @ new"
    using process_location_completed [OF run] by blast
  have C: "\<forall>l p. recorded w l p \<longrightarrow> recorded w' l p"
  proof (intro allI impI)
    fix l p assume "recorded w l p"
    moreover from B obtain new where "completed w' l = completed w l @ new" by blast
    ultimately show "recorded w' l p" by (simp add: recorded_def)
  qed
  have D: "\<forall>l p roster. recorded w l p \<longrightarrow> recorded (snd (process_locations roster svc w)) l p"
  proof (intro allI impI)
    fix l p roster assume "recorded w l p"
    moreover from process_locations_completed [of roster svc w l] obtain new
      where "completed (snd (process_locations roster svc w)) l = completed w l @ new" by blast
    ultimately show "recorded (snd (process_locations roster svc w)) l p"
      by (simp add: recorded_def)
  qed
  have E: "\<forall>l p. recorded w l p \<longrightarrow> recorded (snd (main svc w)) l p"
  proof (intro allI impI)
    fix l p assume "recorded w l p"
    moreover from main_completed [of svc w l] obtain new
      where "completed (snd (main svc w)) l = completed w l @ new" by blast
    ultimately show "recorded (snd (main svc w)) l p" by (simp add: recorded_def)
  qed
  from A B C D E show ?thesis by (intro conjI) (elim conjE, assumption)+
qed

theorem progress_is_kept_witness:
  "recorded example_world ''L1'' ''P1'' \<and>
   recorded (snd (process_location ''L2'' example_service \<lparr>progress_file = ''p.json''\<rparr>
                    example_world)) ''L1'' ''P1'' \<and>
   recorded (snd (main example_service example_world)) ''L1'' ''P1'' \<and>
   EvGetProgress ''L2'' None
     \<in> set (new_events example_world
               (snd (process_location ''L2'' example_service \<lparr>progress_file = ''p.json''\<rparr>
                       example_world))) \<and>
   EvResetProgress ''L2''
     \<in> set (new_events example_world
               (snd (process_location ''L2'' example_service \<lparr>progress_file = ''p.json''\<rparr>
                       example_world)))"
proof -
  let ?run = "process_location ''L2'' example_service \<lparr>progress_file = ''p.json''\<rparr> example_world"
  have run: "?run = (fst ?run, snd ?run)" by simp
  have rec: "recorded example_world ''L1'' ''P1''"
    by (simp add: recorded_def completed_def load_document_def dict_of_def example_world_def)
  have get: "EvGetProgress ''L2'' None \<in> set (new_events example_world (snd ?run))"
    by (simp add: example_run_L2)
  note th = progress_is_kept [OF run]
  from th have "\<forall>l p. recorded example_world l p \<longrightarrow> recorded (snd ?run) l p"
    by (elim conjE)
  with rec have r1: "recorded (snd ?run) ''L1'' ''P1''" by blast
  from th have "\<forall>l p. recorded example_world l p \<longrightarrow>
                  recorded (snd (main example_service example_world)) l p"
    by (elim conjE)
  with rec have r2: "recorded (snd (main example_service example_world)) ''L1'' ''P1''" by blast
  from th have "EvResetProgress ''L2'' \<in> set (new_events example_world (snd ?run)) \<longleftrightarrow>
            EvGetProgress ''L2'' None \<in> set (new_events example_world (snd ?run))"
    by (elim conjE)
  with get have reset: "EvResetProgress ''L2'' \<in> set (new_events example_world (snd ?run))"
    by simp
  from rec r1 r2 get reset show ?thesis by (intro conjI)
qed


text \<open>
  C5. When the connection attempt raises, or the fetch raises or returns \<open>None\<close>, that
  call is the last event of the run: no file is truncated or dumped (the snapshot file
  is as it was), no unit is processed, nothing is uploaded, and the progress document is
  unchanged. The run ends with a non-zero exit status and the batch driver ends with the
  same result in the same world: no remaining location is attempted.
\<close>

theorem connect_or_fetch_failure_is_fatal:
  assumes run: "process_location loc svc t w = (r, w')"
      and fail: "EvConnect False \<in> set (new_events w w') \<or>
                 EvFetch loc tys Raises \<in> set (new_events w w') \<or>
                 EvFetch loc tys (Returns None) \<in> set (new_events w w')"
  shows "exit_status r \<noteq> 0 \<and>
         json_files w' ''encounters_to_process.json'' = json_files w ''encounters_to_process.json'' \<and>
         list_all (\<lambda>e. \<not> is_snapshot_write e \<and> \<not> is_process e \<and> \<not> is_upload e)
                  (new_events w w') \<and>
         last (new_events w w') \<in>
           {EvConnect False, EvFetch loc [] Raises, EvFetch loc [] (Returns None)} \<and>
         (\<forall>l. completed w' l = completed w l) \<and>
         (\<forall>w0 rest. w = log (EvNewTracker ''logs/progress.json'') w0 \<longrightarrow>
                    process_locations (loc # rest) svc w0 = (r, w'))"
proof -
  note defs = tracker_events_def snapshot_events_def
  let ?ok = "\<lambda>e. \<not> is_snapshot_write e \<and> \<not> is_process e \<and> \<not> is_upload e"
  from run show ?thesis
  proof (cases rule: process_location_cases)
    case (clear_failed us)
    from clear_failed(1) have "new_events w w' = EvBegin loc # EvClear # us" by (rule new_events_eq)
    with fail clear_failed(2) have False by (auto dest: in_unlinks)
    then show ?thesis ..
  next
    case (unit_failed us m pre p es post)
    note e = new_events_eq [OF unit_failed(1)]
    from unit_failed(2) have "list_all is_unlink us" by (rule unlink_ok_is_unlink)
    with fail e have False
      by (auto simp: defs set_unit_events failed_unit_events_def dest: in_unlinks split: if_splits)
    then show ?thesis ..
  next
    case (uploaded us m u)
    note e = new_events_eq [OF uploaded(1)]
    from uploaded(2) have "list_all is_unlink us" by (rule unlink_ok_is_unlink)
    with fail e have False by (auto simp: defs set_unit_events dest: in_unlinks)
    then show ?thesis ..
  next
    case (connect_failed us)
    note e = new_events_eq [OF connect_failed(1)]
    from connect_failed(2) have u: "list_all is_unlink us" by (rule unlink_ok_is_unlink)
    have nu: "list_all ?ok us" using u by (rule unlinks_sat) simp
    have a: "list_all ?ok (new_events w w')" unfolding e using nu by (simp add: defs)
    have l: "last (new_events w w') \<in>
           {EvConnect False, EvFetch loc [] Raises, EvFetch loc [] (Returns None)}"
      unfolding e by simp
    have r: "r = Inl PyException" by (rule connect_failed(3))
    have st: "exit_status r \<noteq> 0" by (simp add: r exit_status_def)
    have b: "\<forall>w0 rest. w = log (EvNewTracker ''logs/progress.json'') w0 \<longrightarrow>
                    process_locations (loc # rest) svc w0 = (r, w')"
      using run unfolding r by (rule batch_stops_all)
    from st connect_failed(5) a l connect_failed(4) b show ?thesis by (intro conjI)
  next
    case (fetch_raised us)
    note e = new_events_eq [OF fetch_raised(1)]
    from fetch_raised(2) have u: "list_all is_unlink us" by (rule unlink_ok_is_unlink)
    have nu: "list_all ?ok us" using u by (rule unlinks_sat) simp
    have a: "list_all ?ok (new_events w w')" unfolding e using nu by (simp add: defs)
    have l: "last (new_events w w') \<in>
           {EvConnect False, EvFetch loc [] Raises, EvFetch loc [] (Returns None)}"
      unfolding e by simp
    have r: "r = Inl (SystemExit 1)" by (rule fetch_raised(3))
    have st: "exit_status r \<noteq> 0" by (simp add: r exit_status_def)
    have b: "\<forall>w0 rest. w = log (EvNewTracker ''logs/progress.json'') w0 \<longrightarrow>
                    process_locations (loc # rest) svc w0 = (r, w')"
      using run unfolding r by (rule batch_stops_all)
    from st fetch_raised(5) a l fetch_raised(4) b show ?thesis by (intro conjI)
  next
    case (fetch_none us)
    note e = new_events_eq [OF fetch_none(1)]
    from fetch_none(2) have u: "list_all is_unlink us" by (rule unlink_ok_is_unlink)
    have nu: "list_all ?ok us" using u by (rule unlinks_sat) simp
    have a: "list_all ?ok (new_events w w')" unfolding e using nu by (simp add: defs)
    have l: "last (new_events w w') \<in>
           {EvConnect False, EvFetch loc [] Raises, EvFetch loc [] (Returns None)}"
      unfolding e by simp
    have r: "r = Inl (SystemExit 1)" by (rule fetch_none(3))
    have st: "exit_status r \<noteq> 0" by (simp add: r exit_status_def)
    have b: "\<forall>w0 rest. w = log (EvNewTracker ''logs/progress.json'') w0 \<longrightarrow>
                    process_locations (loc # rest) svc w0 = (r, w')"
      using run unfolding r by (rule batch_stops_all)
    from st fetch_none(5) a l fetch_none(4) b show ?thesis by (intro conjI)
  qed
qed

theorem connect_or_fetch_failure_is_fatal_witness:
  "(EvConnect False
      \<in> set (new_events example_world
                (snd (process_location ''L4'' example_service \<lparr>progress_file = ''p.json''\<rparr>
                        example_world))) \<or>
    EvFetch ''L4'' [] Raises
      \<in> set (new_events example_world
                (snd (process_location ''L4'' example_service \<lparr>progress_file = ''p.json''\<rparr>
                        example_world))) \<or>
    EvFetch ''L4'' [] (Returns None)
      \<in> set (new_events example_world
                (snd (process_location ''L4'' example_service \<lparr>progress_file = ''p.json''\<rparr>
                        example_world)))) \<and>
   exit_status (fst (process_location ''L4'' example_service \<lparr>progress_file = ''p.json''\<rparr>
                        example_world)) \<noteq> 0 \<and>
   json_files (snd (process_location ''L4'' example_service \<lparr>progress_file = ''p.json''\<rparr>
                       example_world)) ''encounters_to_process.json''
     = json_files example_world ''encounters_to_process.json''"
proof -
  let ?run = "process_location ''L4'' example_service \<lparr>progress_file = ''p.json''\<rparr> example_world"
  have run: "?run = (fst ?run, snd ?run)" by simp
  have fail: "EvConnect False \<in> set (new_events example_world (snd ?run)) \<or>
              EvFetch ''L4'' [] Raises \<in> set (new_events example_world (snd ?run)) \<or>
              EvFetch ''L4'' [] (Returns None) \<in> set (new_events example_world (snd ?run))"
    by (simp add: example_run_L4)
  note th = connect_or_fetch_failure_is_fatal [OF run fail]
  from th have s: "exit_status (fst ?run) \<noteq> 0" by (elim conjE)
  from th have j: "json_files (snd ?run) ''encounters_to_process.json''
                     = json_files example_world ''encounters_to_process.json''"
    by (elim conjE)
  from fail s j show ?thesis by (intro conjI)
qed


text \<open>
  C6, as stated, fails: the batch does not share one tracker among its locations. For a
  roster of two locations whose runs both return, line 129 constructs one tracker per
  location and line 49 another one in each run, four in all.
\<close>

theorem one_shared_tracker_counterexample:
  "\<not> shares_one_tracker
       (new_events example_world
          (snd (process_locations [''L1'', ''L6''] example_service example_world)))"
  by (simp add: shares_one_tracker_def process_locations.simps(2) run_defs)

text \<open>
  C6, amended. The batch driver takes the locations of the roster in order, one after
  the other, until a run is fatal. When the batch returns, the runs are those of the
  whole roster, each begun and brought to its upload before the next begins. When it
  does not, it stopped at a location of the roster: the runs of the locations before it
  all returned, each brought to its upload, the run of that location was begun in the
  world they left and ended as the batch does, and no later location was begun. The
  driver constructs a tracker for every location and each run constructs its own, two
  for each location of a batch that returns; all of them are for the file
  \<^verbatim>\<open>logs/progress.json\<close>, so what the locations share is that document, whose lists
  only grow during the batch.
\<close>

theorem batch_runs_locations_in_order:
  assumes batch: "process_locations roster svc w = (r, w')"
  shows "(\<exists>n. n \<le> length roster \<and>
              filter is_begin (new_events w w') = map EvBegin (take n roster) \<and>
              (r = Inr () \<longrightarrow> n = length roster)) \<and>
         (r = Inr () \<longrightarrow>
            filter is_begin_or_upload (new_events w w') =
              concat (map (\<lambda>l. [EvBegin l, EvUpload True]) roster) \<and>
            filter is_new_tracker (new_events w w') =
              replicate (2 * length roster) (EvNewTracker ''logs/progress.json'')) \<and>
         (r \<noteq> Inr () \<longrightarrow>
            (\<exists>done loc rest wk.
               roster = done @ loc # rest \<and>
               process_locations done svc w = (Inr (), wk) \<and>
               process_location loc svc \<lparr>progress_file = ''logs/progress.json''\<rparr>
                 (log (EvNewTracker ''logs/progress.json'') wk) = (r, w') \<and>
               filter is_begin_or_upload (new_events w wk) =
                 concat (map (\<lambda>l. [EvBegin l, EvUpload True]) done) \<and>
               filter is_begin (new_events w w') = map EvBegin (done @ [loc]))) \<and>
         list_all (\<lambda>e. is_new_tracker e \<longrightarrow> e = EvNewTracker ''logs/progress.json'')
                  (new_events w w') \<and>
         (\<forall>l. \<exists>new. completed w' l = completed w l @ new)"
proof -
  let ?P = "''logs/progress.json''"
  let ?t = "\<lparr>progress_file = ?P\<rparr>"
  from process_locations_events [OF batch] obtain evs n where ev:
    "trace w' = trace w @ evs" "n \<le> length roster"
    "filter is_begin evs = map EvBegin (take n roster)"
    "r = Inr () \<longrightarrow>
              n = length roster \<and>
              filter is_begin_or_upload evs = concat (map (\<lambda>l. [EvBegin l, EvUpload True]) roster) \<and>
              filter is_new_tracker evs =
                replicate (2 * length roster) (EvNewTracker ''logs/progress.json'')"
    "list_all (\<lambda>e. is_new_tracker e \<longrightarrow> e = EvNewTracker ''logs/progress.json'') evs"
    by blast
  from ev(1) have e: "new_events w w' = evs" by (rule new_events_eq)
  from ev(2) ev(3) ev(4) have A: "\<exists>n. n \<le> length roster \<and>
              filter is_begin (new_events w w') = map EvBegin (take n roster) \<and>
              (r = Inr () \<longrightarrow> n = length roster)"
    unfolding e by blast
  from ev(4) have B: "r = Inr () \<longrightarrow>
            filter is_begin_or_upload (new_events w w') =
              concat (map (\<lambda>l. [EvBegin l, EvUpload True]) roster) \<and>
            filter is_new_tracker (new_events w w') =
              replicate (2 * length roster) (EvNewTracker ''logs/progress.json'')"
    unfolding e by blast
  from ev(5) have C: "list_all (\<lambda>e. is_new_tracker e \<longrightarrow> e = EvNewTracker ''logs/progress.json'')
                  (new_events w w')"
    unfolding e .
  have D: "\<forall>l. \<exists>new. completed w' l = completed w l @ new"
  proof
    fix l
    from process_locations_completed [of roster svc w l] batch
    show "\<exists>new. completed w' l = completed w l @ new" by simp
  qed
  have S: "r \<noteq> Inr () \<longrightarrow>
            (\<exists>done loc rest wk.
               roster = done @ loc # rest \<and>
               process_locations done svc w = (Inr (), wk) \<and>
               process_location loc svc ?t (log (EvNewTracker ?P) wk) = (r, w') \<and>
               filter is_begin_or_upload (new_events w wk) =
                 concat (map (\<lambda>l. [EvBegin l, EvUpload True]) done) \<and>
               filter is_begin (new_events w w') = map EvBegin (done @ [loc]))"
  proof
    assume "r \<noteq> Inr ()"
    with batch obtain ran loc rest wk where st:
      "roster = ran @ loc # rest" "process_locations ran svc w = (Inr (), wk)"
      "process_location loc svc ?t (log (EvNewTracker ?P) wk) = (r, w')"
      using process_locations_stop by blast
    from process_locations_events [OF st(2)] obtain evs1 n1 where e1:
      "trace wk = trace w @ evs1"
      "filter is_begin evs1 = map EvBegin (take n1 ran)"
      "n1 = length ran"
      "filter is_begin_or_upload evs1 = concat (map (\<lambda>l. [EvBegin l, EvUpload True]) ran)"
      by blast
    from e1(1) have n1: "new_events w wk = evs1" by (rule new_events_eq)
    define X where "X = new_events (log (EvNewTracker ?P) wk) w'"
    from process_location_trace [OF st(3)] e1(1)
    have "trace w' = trace w @ (evs1 @ EvNewTracker ?P # X)" by (simp add: X_def)
    then have n2: "new_events w w' = evs1 @ EvNewTracker ?P # X" by (rule new_events_eq)
    from run_events_by_kind(1) [OF st(3)] have "filter is_begin X = [EvBegin loc]"
      by (simp add: X_def)
    with e1(2) e1(3) have b: "filter is_begin (new_events w w') = map EvBegin (ran @ [loc])"
      unfolding n2 by simp
    from e1(4) have u: "filter is_begin_or_upload (new_events w wk) =
                 concat (map (\<lambda>l. [EvBegin l, EvUpload True]) ran)"
      unfolding n1 .
    from st u b show "\<exists>done loc rest wk.
               roster = done @ loc # rest \<and>
               process_locations done svc w = (Inr (), wk) \<and>
               process_location loc svc ?t (log (EvNewTracker ?P) wk) = (r, w') \<and>
               filter is_begin_or_upload (new_events w wk) =
                 concat (map (\<lambda>l. [EvBegin l, EvUpload True]) done) \<and>
               filter is_begin (new_events w w') = map EvBegin (done @ [loc])"
      by (intro exI conjI)
  qed
  from A B S C D show ?thesis by (intro conjI)
qed

theorem batch_runs_locations_in_order_witness:
  "fst (process_locations [''L1'', ''L6''] example_service example_world) = Inr () \<and>
   filter is_begin_or_upload
     (new_events example_world
        (snd (process_locations [''L1'', ''L6''] example_service example_world))) =
     [EvBegin ''L1'', EvUpload True, EvBegin ''L6'', EvUpload True] \<and>
   filter is_new_tracker
     (new_events example_world
        (snd (process_locations [''L1'', ''L6''] example_service example_world))) =
     [EvNewTracker ''logs/progress.json'', EvNewTracker ''logs/progress.json'',
      EvNewTracker ''logs/progress.json'', EvNewTracker ''logs/progress.json''] \<and>
   fst (process_locations [''L1'', ''L2'', ''L6''] example_service example_world) =
     Inl (SystemExit 1) \<and>
   (\<exists>done loc rest wk.
      [''L1'', ''L2'', ''L6''] = done @ loc # rest \<and>
      process_locations done example_service example_world = (Inr (), wk) \<and>
      fst (process_location loc example_service \<lparr>progress_file = ''logs/progress.json''\<rparr>
             (log (EvNewTracker ''logs/progress.json'') wk)) = Inl (SystemExit 1) \<and>
      filter is_begin
        (new_events example_world
           (snd (process_locations [''L1'', ''L2'', ''L6''] example_service example_world))) =
        map EvBegin (done @ [loc])) \<and>
   filter is_begin
     (new_events example_world
        (snd (process_locations [''L1'', ''L2'', ''L6''] example_service example_world))) =
     [EvBegin ''L1'', EvBegin ''L2'']"
proof -
  let ?batch = "process_locations [''L1'', ''L6''] example_service example_world"
  let ?stop = "process_locations [''L1'', ''L2'', ''L6''] example_service example_world"
  have batch: "?batch = (fst ?batch, snd ?batch)" by simp
  have stop: "?stop = (fst ?stop, snd ?stop)" by simp
  have r: "fst ?batch = Inr ()"
    by (simp add: process_locations.simps(2) run_defs)
  note th = batch_runs_locations_in_order [OF batch]
  from th have "fst ?batch = Inr () \<longrightarrow>
            filter is_begin_or_upload (new_events example_world (snd ?batch)) =
              concat (map (\<lambda>l. [EvBegin l, EvUpload True]) [''L1'', ''L6'']) \<and>
            filter is_new_tracker (new_events example_world (snd ?batch)) =
              replicate (2 * length [''L1'', ''L6'']) (EvNewTracker ''logs/progress.json'')"
    by (elim conjE)
  with r have "filter is_begin_or_upload (new_events example_world (snd ?batch)) =
              concat (map (\<lambda>l. [EvBegin l, EvUpload True]) [''L1'', ''L6''])"
    and "filter is_new_tracker (new_events example_world (snd ?batch)) =
              replicate (2 * length [''L1'', ''L6'']) (EvNewTracker ''logs/progress.json'')"
    by blast+
  then have ok: "filter is_begin_or_upload (new_events example_world (snd ?batch)) =
               [EvBegin ''L1'', EvUpload True, EvBegin ''L6'', EvUpload True]"
    and tr: "filter is_new_tracker (new_events example_world (snd ?batch)) =
     [EvNewTracker ''logs/progress.json'', EvNewTracker ''logs/progress.json'',
      EvNewTracker ''logs/progress.json'', EvNewTracker ''logs/progress.json'']"
    by (simp_all add: numeral_2_eq_2)
  have r2: "fst ?stop = Inl (SystemExit 1)"
    by (simp add: process_locations.simps(2) run_defs)
  then have ne: "fst ?stop \<noteq> Inr ()" by simp
  note th2 = batch_runs_locations_in_order [OF stop]
  from th2 have "fst ?stop \<noteq> Inr () \<longrightarrow>
       (\<exists>done loc rest wk.
          [''L1'', ''L2'', ''L6''] = done @ loc # rest \<and>
          process_locations done example_service example_world = (Inr (), wk) \<and>
          process_location loc example_service \<lparr>progress_file = ''logs/progress.json''\<rparr>
            (log (EvNewTracker ''logs/progress.json'') wk) = (fst ?stop, snd ?stop) \<and>
          filter is_begin_or_upload (new_events example_world wk) =
            concat (map (\<lambda>l. [EvBegin l, EvUpload True]) done) \<and>
          filter is_begin (new_events example_world (snd ?stop)) = map EvBegin (done @ [loc]))"
    by (elim conjE)
  with ne obtain ran loc rest wk where st:
    "[''L1'', ''L2'', ''L6''] = ran @ loc # rest"
    "process_locations ran example_service example_world = (Inr (), wk)"
    "process_location loc example_service \<lparr>progress_file = ''logs/progress.json''\<rparr>
       (log (EvNewTracker ''logs/progress.json'') wk) = (fst ?stop, snd ?stop)"
    "filter is_begin (new_events example_world (snd ?stop)) = map EvBegin (ran @ [loc])"
    by blast
  from st(3) r2 have
    "fst (process_location loc example_service \<lparr>progress_file = ''logs/progress.json''\<rparr>
            (log (EvNewTracker ''logs/progress.json'') wk)) = Inl (SystemExit 1)"
    by simp
  with st(1) st(2) st(4) have ex: "\<exists>done loc rest wk.
      [''L1'', ''L2'', ''L6''] = done @ loc # rest \<and>
      process_locations done example_service example_world = (Inr (), wk) \<and>
      fst (process_location loc example_service \<lparr>progress_file = ''logs/progress.json''\<rparr>
             (log (EvNewTracker ''logs/progress.json'') wk)) = Inl (SystemExit 1) \<and>
      filter is_begin (new_events example_world (snd ?stop)) = map EvBegin (done @ [loc])"
    by (intro exI conjI)
  have bg: "filter is_begin (new_events example_world (snd ?stop)) =
              [EvBegin ''L1'', EvBegin ''L2'']"
    by (simp add: process_locations.simps(2) run_defs)
  from r ok tr r2 ex bg show ?thesis by (intro conjI)
qed





text \<open>
  C8. Clearing a staging directory (an existing one, whose entries have distinct names)
  returns exactly when no regular file in it resists deletion, and then leaves the
  entries that are not regular files, as they were: subdirectories keep their contents.
  Otherwise it exits with status 1, and even then the other entries are untouched.
  Every run of \<^verbatim>\<open>process_location\<close> starts with the clearing: its deletions come first
  and every other event of the run (connect, fetch, per-unit processing) after them;
  when a deletion fails nothing follows, the run exits with status 1 and the batch driver
  ends there.
\<close>

theorem staging_cleared_first:
  assumes dir: "patients_to_sync w = Some d" and names: "distinct (map fst d)"
      and clear: "clear_patients_to_sync_folder w = (r, w')"
      and run: "process_location loc svc t w1 = (r1, w1')"
  shows "(r = Inr () \<longleftrightarrow> (\<forall>e\<in>set d. snd e \<noteq> File True)) \<and>
         (r = Inr () \<longrightarrow> patients_to_sync w' = Some (filter (\<lambda>e. \<not> is_regular (snd e)) d)) \<and>
         (r \<noteq> Inr () \<longrightarrow> r = Inl (SystemExit 1) \<and> exit_status r \<noteq> 0) \<and>
         (\<exists>d'. patients_to_sync w' = Some d' \<and>
               filter (\<lambda>e. \<not> is_regular (snd e)) d' = filter (\<lambda>e. \<not> is_regular (snd e)) d) \<and>
         (\<exists>us rest.
            new_events w1 w1' = EvBegin loc # EvClear # us @ rest \<and>
            list_all is_unlink us \<and>
            list_all (\<lambda>e. \<not> is_unlink e \<and> e \<noteq> EvClear) rest \<and>
            ((\<exists>n. EvUnlink n False \<in> set us) \<longrightarrow>
               rest = [] \<and> r1 = Inl (SystemExit 1) \<and> exit_status r1 \<noteq> 0 \<and>
               (\<forall>w0 more. w1 = log (EvNewTracker ''logs/progress.json'') w0 \<longrightarrow>
                          process_locations (loc # more) svc w0 = (r1, w1'))))"
proof -
  note defs = tracker_events_def snapshot_events_def
  note res = clear_result [OF dir names clear]
  have A: "r = Inr () \<longleftrightarrow> (\<forall>e\<in>set d. snd e \<noteq> File True)" by (rule res(2))
  have B: "r = Inr () \<longrightarrow> patients_to_sync w' = Some (filter (\<lambda>e. \<not> is_regular (snd e)) d)"
    by (rule res(1))
  have C: "r \<noteq> Inr () \<longrightarrow> r = Inl (SystemExit 1) \<and> exit_status r \<noteq> 0"
    using clear_frame [OF clear] dir by (auto simp: exit_status_def)
  have D: "\<exists>d'. patients_to_sync w' = Some d' \<and>
               filter (\<lambda>e. \<not> is_regular (snd e)) d' = filter (\<lambda>e. \<not> is_regular (snd e)) d"
    by (rule res(3))
  let ?Q = "\<lambda>e. \<not> is_unlink e \<and> e \<noteq> EvClear"
  let ?E = "\<lambda>us rest.
            new_events w1 w1' = EvBegin loc # EvClear # us @ rest \<and>
            list_all is_unlink us \<and> list_all ?Q rest \<and>
            ((\<exists>n. EvUnlink n False \<in> set us) \<longrightarrow>
               rest = [] \<and> r1 = Inl (SystemExit 1) \<and> exit_status r1 \<noteq> 0 \<and>
               (\<forall>w0 more. w1 = log (EvNewTracker ''logs/progress.json'') w0 \<longrightarrow>
                          process_locations (loc # more) svc w0 = (r1, w1')))"
  have later: "?E us rest"
    if e: "new_events w1 w1' = EvBegin loc # EvClear # us @ rest"
    and ok: "list_all is_unlink_ok us" and q: "list_all ?Q rest" for us rest
  proof -
    from ok have u: "list_all is_unlink us" by (rule unlink_ok_is_unlink)
    have "\<And>n. EvUnlink n False \<notin> set us"
    proof
      fix n assume "EvUnlink n False \<in> set us"
      with ok have "is_unlink_ok (EvUnlink n False)" by (rule in_unlinks_ok)
      then show False by simp
    qed
    with e u q show ?thesis by simp
  qed
  have E: "\<exists>us rest. ?E us rest" using run
  proof (cases rule: process_location_cases)
    case (clear_failed us)
    from clear_failed(1) have e: "new_events w1 w1' = EvBegin loc # EvClear # us @ []"
      by (simp add: new_events_def)
    have "(\<exists>n. EvUnlink n False \<in> set us) \<longrightarrow>
               [] = ([] :: event list) \<and> r1 = Inl (SystemExit 1) \<and> exit_status r1 \<noteq> 0 \<and>
               (\<forall>w0 more. w1 = log (EvNewTracker ''logs/progress.json'') w0 \<longrightarrow>
                          process_locations (loc # more) svc w0 = (r1, w1'))"
    proof
      assume "\<exists>n. EvUnlink n False \<in> set us"
      then have "us \<noteq> []" by auto
      with clear_failed(3) have r: "r1 = Inl (SystemExit 1)" by auto
      have "\<forall>w0 more. w1 = log (EvNewTracker ''logs/progress.json'') w0 \<longrightarrow>
                          process_locations (loc # more) svc w0 = (r1, w1')"
        using run unfolding r by (rule batch_stops_all)
      with r show "[] = ([] :: event list) \<and> r1 = Inl (SystemExit 1) \<and> exit_status r1 \<noteq> 0 \<and>
               (\<forall>w0 more. w1 = log (EvNewTracker ''logs/progress.json'') w0 \<longrightarrow>
                          process_locations (loc # more) svc w0 = (r1, w1'))"
        by (simp add: exit_status_def)
    qed
    moreover have "list_all ?Q []" by simp
    ultimately have "?E us []" using e clear_failed(2) by (intro conjI)
    then show ?thesis by (intro exI)
  next
    case (connect_failed us)
    from new_events_eq [OF connect_failed(1)] connect_failed(2)
    have "?E us (tracker_events loc (map_of (load_document ''logs/progress.json'' w1) loc) @
                 [EvConnect False])"
      by (rule later) (simp add: defs)
    then show ?thesis by (intro exI)
  next
    case (fetch_raised us)
    from new_events_eq [OF fetch_raised(1)] fetch_raised(2)
    have "?E us (tracker_events loc (map_of (load_document ''logs/progress.json'' w1) loc) @
                 [EvConnect True, EvFetch loc [] Raises])"
      by (rule later) (simp add: defs)
    then show ?thesis by (intro exI)
  next
    case (fetch_none us)
    from new_events_eq [OF fetch_none(1)] fetch_none(2)
    have "?E us (tracker_events loc (map_of (load_document ''logs/progress.json'' w1) loc) @
                 [EvConnect True, EvFetch loc [] (Returns None)])"
      by (rule later) (simp add: defs)
    then show ?thesis by (intro exI)
  next
    case (unit_failed us m pre p es post)
    have qu: "list_all ?Q (unit_events loc pre)" by (rule unit_events_sat) simp_all
    from new_events_eq [OF unit_failed(1)] unit_failed(2)
    have "?E us (tracker_events loc (map_of (load_document ''logs/progress.json'' w1) loc) @
                 EvConnect True # EvFetch loc [] (Returns (Some m)) # snapshot_events m @
                 unit_events loc pre @
                 failed_unit_events svc loc p es (units_effect svc loc pre (at_loop svc loc w1)))"
      by (rule later) (simp add: defs qu failed_unit_events_sat)
    then show ?thesis by (intro exI)
  next
    case (uploaded us m u)
    have qu: "list_all ?Q (unit_events loc (dict_of m))" by (rule unit_events_sat) simp_all
    from new_events_eq [OF uploaded(1)] uploaded(2)
    have "?E us (tracker_events loc (map_of (load_document ''logs/progress.json'' w1) loc) @
                 EvConnect True # EvFetch loc [] (Returns (Some m)) # snapshot_events m @
                 unit_events loc (dict_of m) @ [EvUpload u])"
      by (rule later) (simp add: defs qu)
    then show ?thesis by (intro exI)
  qed
  from A B C D E show ?thesis by (intro conjI)
qed

theorem staging_cleared_first_witness:
  "patients_to_sync example_world =
     Some [(''a.json'', File False), (''sub'', Dir [(''x'', File False)]), (''b.json'', File False)] \<and>
   distinct (map fst [(''a.json'', File False), (''sub'', Dir [(''x'', File False)]),
                      (''b.json'', File False)]) \<and>
   fst (clear_patients_to_sync_folder example_world) = Inr () \<and>
   patients_to_sync (snd (clear_patients_to_sync_folder example_world)) =
     Some [(''sub'', Dir [(''x'', File False)])]"
proof -
  let ?d = "[(''a.json'', File False), (''sub'', Dir [(''x'', File False)]), (''b.json'', File False)]"
  let ?clear = "clear_patients_to_sync_folder example_world"
  let ?run = "process_location ''L1'' example_service \<lparr>progress_file = ''p.json''\<rparr> example_world"
  have dir: "patients_to_sync example_world = Some ?d" by (simp add: example_world_def)
  have names: "distinct (map fst ?d)" by simp
  have clear: "?clear = (fst ?clear, snd ?clear)" by simp
  have run: "?run = (fst ?run, snd ?run)" by simp
  note th = staging_cleared_first [OF dir names clear run]
  from th have iff: "fst ?clear = Inr () \<longleftrightarrow> (\<forall>e\<in>set ?d. snd e \<noteq> File True)" by (elim conjE)
  then have ok: "fst ?clear = Inr ()" by simp
  from th have "fst ?clear = Inr () \<longrightarrow>
      patients_to_sync (snd ?clear) = Some (filter (\<lambda>e. \<not> is_regular (snd e)) ?d)"
    by (elim conjE)
  with ok have left: "patients_to_sync (snd ?clear) = Some [(''sub'', Dir [(''x'', File False)])]"
    by simp
  from dir names ok left show ?thesis by (intro conjI)
qed


end
